theory Spec2Isabelle
  imports Main "HOL-Library.Sublist" "HOL-Library.Multiset"
begin

section \<open>Data model\<close>

text \<open>
  The download command of gdrive (package \<open>download\<close>): a breadth-first walk of a remote
  Google Drive tree that produces a flat list of tasks, a JSON list file that persists the
  list, and a loop that downloads every task that is not done, with retries.

  \<open>DriveFile\<close> holds the four fields of \<open>drive.File\<close> that the program requests
  (\<open>id,name,mimeType,md5Checksum\<close>); \<open>FileList\<close> is one page of \<open>Files.List\<close>.
\<close>

record DriveFile =
  Id :: string
  Name :: string
  MimeType :: string
  Md5Checksum :: string

record FileList =
  Files :: "DriveFile list"
  NextPageToken :: string

text \<open>\<open>type Task struct\<close>, with the JSON keys \<open>id\<close>, \<open>path\<close>, \<open>md5\<close>, \<open>done\<close>.\<close>

record Task =
  FileId :: string
  SavePath :: string
  Md5Checksum :: string
  Done :: bool

text \<open>
  A Go \<open>error\<close>: either one that an external call returned, or one that the program built
  with \<open>fmt.Errorf(format, strings..., err)\<close> around another error.
\<close>

datatype error = External string | Errorf string "string list" error

text \<open>
  Everything the program does to the outside is recorded, in order, in a trace: each
  \<open>log.Printf\<close> (format string and arguments; the floating-point percentage of the
  progress line is left out), each call of the Drive service and of the operating system
  (with whether it succeeded), and each \<open>time.Sleep\<close> (in seconds).
\<close>

datatype arg = AStr string | ANat nat | AErr error

datatype event =
    Log string "arg list"
  | CallGet string bool
  | CallList string string bool
  | CallDownload string bool
  | OsOpen string bool
  | OsMkdirAll string
  | OsCreate string bool
  | OsWrite string string
  | Sleep nat

text \<open>
  The world the program runs in: the regular files of the local disk (path to content)
  and the trace so far. A path that opens is a regular file that reads to its end, and a
  write to a created file succeeds. Directories are not in the model: what
  \<open>os.MkdirAll\<close> does is only traced, and a directory at the path of a task (on which the
  read loop of \<open>getFileMd5\<close>, which leaves only at \<open>io.EOF\<close>, gets an error with every
  read) is outside of it.
\<close>

record World =
  fs :: "string \<rightharpoonup> string"
  trace :: "event list"

text \<open>
  The body of a download response: the bytes that arrive, and the error (if any) that
  ends the stream early.
\<close>

record Body =
  data :: string
  readErr :: "error option"

text \<open>A JSON document, as \<open>encoding/json\<close> sees it.\<close>

datatype json =
    JNull
  | JBool bool
  | JNumber string
  | JString string
  | JArray "json list"
  | JObject "(string \<times> json) list"

text \<open>
  The external collaborators. Each answer may depend on the whole history (the world
  holds the trace), so a service that fails now and succeeds later is an \<open>Env\<close>.
  \<^item> \<open>Files_Get\<close>: \<open>service.Files.Get(id).Fields(...).Do()\<close>;
  \<^item> \<open>Files_List\<close>: \<open>service.Files.List()...PageToken(t).Q("'id' in parents").Do()\<close>;
  \<^item> \<open>Download\<close>: \<open>service.Files.Get(id).Download()\<close>;
  \<^item> \<open>os_Create\<close>: the error of \<open>os.Create(path)\<close>, if it fails;
  \<^item> \<open>md5_hex\<close>: \<open>hex.EncodeToString(md5.Sum(content))\<close>;
  \<^item> \<open>json_render\<close>, \<open>json_parse\<close>: the text that \<open>json.Encoder\<close> writes for a
    document (indented by two spaces), and the document \<open>json.Decoder\<close> reads from a text.
\<close>

record Env =
  Files_Get :: "World \<Rightarrow> string \<Rightarrow> error + DriveFile"
  Files_List :: "World \<Rightarrow> string \<Rightarrow> string \<Rightarrow> error + FileList"
  Download :: "World \<Rightarrow> string \<Rightarrow> error + Body"
  os_Create :: "World \<Rightarrow> string \<Rightarrow> error option"
  md5_hex :: "string \<Rightarrow> string"
  json_render :: "json \<Rightarrow> string"
  json_parse :: "string \<Rightarrow> error + json"

definition emit :: "event \<Rightarrow> World \<Rightarrow> World" where
  "emit ev w = w\<lparr>trace := trace w @ [ev]\<rparr>"

definition logPrintf :: "string \<Rightarrow> arg list \<Rightarrow> World \<Rightarrow> World" where
  "logPrintf format args w = emit (Log format args) w"

definition writeFile :: "string \<Rightarrow> string \<Rightarrow> World \<Rightarrow> World" where
  "writeFile path content w = w\<lparr>fs := (fs w)(path \<mapsto> content)\<rparr>"

section \<open>Paths: \<open>filepath.Join\<close>, \<open>filepath.Clean\<close>, \<open>filepath.Dir\<close> (Unix)\<close>

text \<open>
  The Go standard library on a Unix system, where the separator is \<open>/\<close>. \<open>Clean\<close> drops
  empty and \<open>.\<close> elements, lets \<open>..\<close> remove the element before it (at the root: itself),
  and returns \<open>.\<close> for an empty result. \<open>Join\<close> ignores leading empty elements, joins
  the rest with the separator and cleans; it is the empty string when all are empty.
\<close>

fun splitSlash :: "string \<Rightarrow> string list" where
  "splitSlash [] = [[]]"
| "splitSlash (c # cs) =
     (if c = CHR ''/'' then [] # splitSlash cs
      else (case splitSlash cs of [] \<Rightarrow> [[c]] | x # xs \<Rightarrow> (c # x) # xs))"

fun joinSlash :: "string list \<Rightarrow> string" where
  "joinSlash [] = []"
| "joinSlash [x] = x"
| "joinSlash (x # y # ys) = x @ CHR ''/'' # joinSlash (y # ys)"

fun cleanElems :: "bool \<Rightarrow> string list \<Rightarrow> string list \<Rightarrow> string list" where
  "cleanElems rooted out [] = rev out"
| "cleanElems rooted out (e # es) =
     (if e = [] \<or> e = ''.'' then cleanElems rooted out es
      else if e = ''..'' then
        (case out of
           [] \<Rightarrow> if rooted then cleanElems rooted out es else cleanElems rooted (e # out) es
         | prev # out' \<Rightarrow>
             if prev = ''..'' then cleanElems rooted (e # out) es else cleanElems rooted out' es)
      else cleanElems rooted (e # out) es)"

definition filepath_Clean :: "string \<Rightarrow> string" where
  "filepath_Clean path =
     (case path of
        [] \<Rightarrow> ''.''
      | c # _ \<Rightarrow>
          (let rooted = (c = CHR ''/'');
               body = joinSlash (cleanElems rooted [] (splitSlash path))
           in if rooted then CHR ''/'' # body else if body = [] then ''.'' else body))"

definition filepath_Join :: "string \<Rightarrow> string \<Rightarrow> string" where
  "filepath_Join a b =
     (if a \<noteq> [] then filepath_Clean (a @ CHR ''/'' # b)
      else if b \<noteq> [] then filepath_Clean b
      else [])"

definition filepath_Dir :: "string \<Rightarrow> string" where
  "filepath_Dir path = filepath_Clean (rev (dropWhile (\<lambda>c. c \<noteq> CHR ''/'') (rev path)))"


section \<open>The task list store\<close>

text \<open>
  What \<open>encoding/json\<close> does with \<open>[]Task\<close> through the struct tags: a task is written
  as an object with the keys \<open>id\<close>, \<open>path\<close>, \<open>md5\<close>, \<open>done\<close>, in this order. When reading,
  a key selects the field whose tag it equals, ignoring case; a \<open>null\<close> leaves the field as
  it is; a value of the wrong type is an error; other keys are ignored.
\<close>

definition Marshal_Task :: "Task \<Rightarrow> json" where
  "Marshal_Task t =
     JObject [(''id'', JString (FileId t)), (''path'', JString (SavePath t)),
              (''md5'', JString (Task.Md5Checksum t)), (''done'', JBool (Done t))]"

definition Marshal_tasks :: "Task list \<Rightarrow> json" where
  "Marshal_tasks ts = JArray (map Marshal_Task ts)"

definition toLower :: "char \<Rightarrow> char" where
  "toLower c =
     (if of_char c \<ge> (65::nat) \<and> of_char c \<le> (90::nat) then char_of (of_char c + (32::nat)) else c)"

definition zeroTask :: Task where
  "zeroTask = \<lparr>FileId = [], SavePath = [], Md5Checksum = [], Done = False\<rparr>"

definition typeError :: "string \<Rightarrow> error" where
  "typeError field = External (''json: cannot unmarshal value into Go struct field Task.'' @ field)"

fun setField :: "string \<Rightarrow> json \<Rightarrow> Task \<Rightarrow> error + Task" where
  "setField key v t =
     (let k = map toLower key in
      if k = ''id'' then
        (case v of JString s \<Rightarrow> Inr (t\<lparr>FileId := s\<rparr>) | JNull \<Rightarrow> Inr t | _ \<Rightarrow> Inl (typeError ''id''))
      else if k = ''path'' then
        (case v of JString s \<Rightarrow> Inr (t\<lparr>SavePath := s\<rparr>) | JNull \<Rightarrow> Inr t | _ \<Rightarrow> Inl (typeError ''path''))
      else if k = ''md5'' then
        (case v of JString s \<Rightarrow> Inr (t\<lparr>Md5Checksum := s\<rparr>) | JNull \<Rightarrow> Inr t | _ \<Rightarrow> Inl (typeError ''md5''))
      else if k = ''done'' then
        (case v of JBool b \<Rightarrow> Inr (t\<lparr>Done := b\<rparr>) | JNull \<Rightarrow> Inr t | _ \<Rightarrow> Inl (typeError ''done''))
      else Inr t)"

fun setFields :: "(string \<times> json) list \<Rightarrow> Task \<Rightarrow> error + Task" where
  "setFields [] t = Inr t"
| "setFields ((key, v) # kvs) t =
     (case setField key v t of Inl e \<Rightarrow> Inl e | Inr t' \<Rightarrow> setFields kvs t')"

definition Unmarshal_Task :: "json \<Rightarrow> error + Task" where
  "Unmarshal_Task v =
     (case v of
        JObject kvs \<Rightarrow> setFields kvs zeroTask
      | JNull \<Rightarrow> Inr zeroTask
      | _ \<Rightarrow> Inl (External ''json: cannot unmarshal value into Go value of type download.Task''))"

fun Unmarshal_elems :: "json list \<Rightarrow> error + Task list" where
  "Unmarshal_elems [] = Inr []"
| "Unmarshal_elems (v # vs) =
     (case Unmarshal_Task v of
        Inl e \<Rightarrow> Inl e
      | Inr t \<Rightarrow> (case Unmarshal_elems vs of Inl e \<Rightarrow> Inl e | Inr ts \<Rightarrow> Inr (t # ts)))"

definition Unmarshal_tasks :: "json \<Rightarrow> error + Task list" where
  "Unmarshal_tasks v =
     (case v of
        JArray vs \<Rightarrow> Unmarshal_elems vs
      | JNull \<Rightarrow> Inr []
      | _ \<Rightarrow> Inl (External ''json: cannot unmarshal value into Go value of type []download.Task''))"

text \<open>
  \<open>saveListFile\<close>: create (and so truncate) the list file, then write the encoded list.
  \<open>loadListFile\<close>: open the list file and decode it; it returns \<open>nil\<close> (the empty list) with
  every error.
\<close>

definition saveListFile :: "Env \<Rightarrow> Task list \<Rightarrow> string \<Rightarrow> World \<Rightarrow> error option \<times> World" where
  "saveListFile env fileTasks listFile w =
     (case os_Create env w listFile of
        Some err \<Rightarrow>
          (Some (Errorf ''Unable create list file: %s, err = %w'' [listFile] err),
           emit (OsCreate listFile False) w)
      | None \<Rightarrow>
          (let w1 = writeFile listFile [] (emit (OsCreate listFile True) w);
               doc = json_render env (Marshal_tasks fileTasks)
           in (None, writeFile listFile doc (emit (OsWrite listFile doc) w1))))"

definition loadListFile :: "Env \<Rightarrow> string \<Rightarrow> World \<Rightarrow> (Task list \<times> error option) \<times> World" where
  "loadListFile env listFile w =
     (case fs w listFile of
        None \<Rightarrow>
          (([], Some (Errorf ''Unable to open list file: %s, err = %w'' [listFile]
                        (External ''open: no such file or directory''))),
           emit (OsOpen listFile False) w)
      | Some content \<Rightarrow>
          (let w1 = emit (OsOpen listFile True) w in
           case json_parse env content of
             Inl err \<Rightarrow>
               (([], Some (Errorf ''Unable to decode list file: %s, err = %w'' [listFile] err)), w1)
           | Inr v \<Rightarrow>
               (case Unmarshal_tasks v of
                  Inl err \<Rightarrow>
                    (([], Some (Errorf ''Unable to decode list file: %s, err = %w'' [listFile] err)), w1)
                | Inr tasks \<Rightarrow> ((tasks, None), w1))))"

section \<open>Downloading one file\<close>

text \<open>\<open>getFileMd5\<close>: the empty string when the file does not open, else the digest.\<close>

definition getFileMd5 :: "Env \<Rightarrow> string \<Rightarrow> World \<Rightarrow> string \<times> World" where
  "getFileMd5 env dstFilePath w =
     (case fs w dstFilePath of
        None \<Rightarrow> ([], emit (OsOpen dstFilePath False) w)
      | Some content \<Rightarrow> (md5_hex env content, emit (OsOpen dstFilePath True) w))"

text \<open>
  \<open>saveFile\<close>: make the parent directories (the result is ignored), create the file, copy
  the body into it. When the body ends with an error, the bytes that arrived are in the
  file (the deferred \<open>Flush\<close>) and the error is returned.
\<close>

definition saveFile :: "Env \<Rightarrow> string \<Rightarrow> Body \<Rightarrow> World \<Rightarrow> error option \<times> World" where
  "saveFile env dstFilePath reader w =
     (let w1 = emit (OsMkdirAll (filepath_Dir dstFilePath)) w in
      case os_Create env w1 dstFilePath of
        Some err \<Rightarrow>
          (Some (Errorf ''Unable to create file: %s, err = %w'' [dstFilePath] err),
           emit (OsCreate dstFilePath False) w1)
      | None \<Rightarrow>
          (let w2 = writeFile dstFilePath [] (emit (OsCreate dstFilePath True) w1);
               w3 = writeFile dstFilePath (data reader) (emit (OsWrite dstFilePath (data reader)) w2)
           in case readErr reader of
                Some err \<Rightarrow>
                  (Some (Errorf ''Unable to write file: %s, err = %w'' [dstFilePath] err), w3)
              | None \<Rightarrow> (None, w3)))"

definition downloadDriveFile :: "Env \<Rightarrow> Task \<Rightarrow> World \<Rightarrow> error option \<times> World" where
  "downloadDriveFile env task w =
     (let dstFilePath = SavePath task;
          (dstFileMd5, w1) = getFileMd5 env dstFilePath w
      in if Task.Md5Checksum task \<noteq> [] \<and> dstFileMd5 \<noteq> [] \<and> dstFileMd5 = Task.Md5Checksum task
         then (None, logPrintf ''skipping identical file: %s'' [AStr dstFilePath] w1)
         else
           (let w2 = logPrintf ''downloading file (%s): %s''
                       [AStr (Task.Md5Checksum task), AStr dstFilePath] w1
            in case Download env w2 (FileId task) of
                 Inl err \<Rightarrow>
                   (Some (Errorf ''download file: %s, err = %w'' [dstFilePath] err),
                    emit (CallDownload (FileId task) False) w2)
               | Inr resp \<Rightarrow>
                   (case saveFile env dstFilePath resp (emit (CallDownload (FileId task) True) w2) of
                      (Some err, w3) \<Rightarrow>
                        (Some (Errorf ''save file: %s, err = %w'' [dstFilePath] err), w3)
                    | (None, w3) \<Rightarrow> (None, w3))))"

section \<open>The transfer loop of \<open>onRunDownload\<close>\<close>

text \<open>
  The retry loop \<open>for k := 1; k <= 5; k++\<close>: a download that succeeds leaves the loop; a
  failure is logged and followed by a sleep of \<open>k * 5\<close> seconds. \<open>err\<close> is the variable
  \<open>err\<close> of the function, which the loop leaves as the last attempt set it.
\<close>

definition backoff :: "nat \<Rightarrow> error \<Rightarrow> World \<Rightarrow> World" where
  "backoff k err w =
     emit (Sleep (k * 5)) (logPrintf ''retry [%02d] in %v, err = %v'' [ANat k, ANat (k * 5), AErr err] w)"

function retryLoop :: "Env \<Rightarrow> Task \<Rightarrow> nat \<Rightarrow> error option \<Rightarrow> World \<Rightarrow> error option \<times> World" where
  "retryLoop env task k err w =
     (if k \<le> 5 then
        (case downloadDriveFile env task w of
           (None, w1) \<Rightarrow> (None, w1)
         | (Some e, w1) \<Rightarrow> retryLoop env task (k + 1) (Some e) (backoff k e w1))
      else (err, w))"
  by pat_completeness auto
termination
  by (relation "measure (\<lambda>(env, task, k, err, w). 6 - k)") auto

text \<open>
  The loop \<open>for i, task := range fileTasks\<close>: a done task is skipped; a task whose retries
  all failed ends the loop; a task that succeeded is marked done in the list, and the list
  is saved when \<open>(i+1)%10 == 0\<close>. The result is the list, the variable \<open>err\<close> and the world.
\<close>

function runLoop :: "Env \<Rightarrow> string \<Rightarrow> nat \<Rightarrow> nat \<Rightarrow> Task list \<Rightarrow> World \<Rightarrow> Task list \<times> error option \<times> World" where
  "runLoop env listFile ntotal i fileTasks w =
     (if i < length fileTasks then
        (let task = fileTasks ! i in
         if Done task then
           runLoop env listFile ntotal (i + 1) fileTasks
             (logPrintf ''Skipping: %05d / %05d, file: %s'' [ANat i, ANat ntotal, AStr (SavePath task)] w)
         else
           (case retryLoop env task 1 None
                   (logPrintf ''Downloading: %05d / %05d (%.2f %%)'' [ANat i, ANat ntotal] w) of
              (Some err, w2) \<Rightarrow> (fileTasks, Some err, logPrintf ''download err = %v'' [AErr err] w2)
            | (None, w2) \<Rightarrow>
                (let fileTasks' = fileTasks[i := (fileTasks ! i)\<lparr>Done := True\<rparr>];
                     w3 = (if (i + 1) mod 10 = 0 then snd (saveListFile env fileTasks' listFile w2)
                           else w2)
                 in runLoop env listFile ntotal (i + 1) fileTasks' w3)))
      else (fileTasks, None, w))"
  by pat_completeness auto
termination
  by (relation "measure (\<lambda>(env, listFile, ntotal, i, fileTasks, w). length fileTasks - i)") auto

text \<open>
  The transfer executor: lines 139 to 171 of \<open>onRunDownload\<close>, from \<open>total := len(fileTasks)\<close>
  to the last \<open>saveListFile\<close>, whose error is dropped.
\<close>

definition runTasks :: "Env \<Rightarrow> string \<Rightarrow> Task list \<Rightarrow> World \<Rightarrow> Task list \<times> error option \<times> World" where
  "runTasks env listFile fileTasks w =
     (let ntotal = length fileTasks;
          w0 = logPrintf ''Total files: %d'' [ANat ntotal] w;
          (fileTasks', err, w1) = runLoop env listFile ntotal 0 fileTasks w0
      in (fileTasks', err, snd (saveListFile env fileTasks' listFile w1)))"

section \<open>The tree walker\<close>

definition isDriveFolder :: "DriveFile \<Rightarrow> bool" where
  "isDriveFolder driveFile =
     (length (MimeType driveFile) \<ge> 6 \<and>
      drop (length (MimeType driveFile) - 6) (MimeType driveFile) = ''folder'')"

text \<open>
  \<open>listDriveFolder\<close> calls a handler on every entry of every page. The handler of the walk
  is a closure over the queue and the list of tasks, so a handler is modelled as a function
  on a state \<open>'s\<close>; \<open>handleEntries\<close> is the loop over the entries of one page, which
  returns at the first error of the handler.
\<close>

fun handleEntries :: "(DriveFile \<Rightarrow> 's \<Rightarrow> error option \<times> 's) \<Rightarrow> DriveFile list \<Rightarrow> 's \<Rightarrow> error option \<times> 's" where
  "handleEntries handler [] s = (None, s)"
| "handleEntries handler (entry # entries) s =
     (case handler entry s of
        (Some err, s') \<Rightarrow> (Some err, s')
      | (None, s') \<Rightarrow> handleEntries handler entries s')"

text \<open>
  The loop \<open>for i := 0; ; i++\<close> of \<open>listDriveFolder\<close>, which has no bound: it ends with
  an error of the service or of the handler, with a page that has no entries, or with an
  empty \<open>NextPageToken\<close>. A loop that never ends is the value \<open>None\<close>.
\<close>

partial_function (option) listPages :: "Env \<Rightarrow> string \<Rightarrow> (DriveFile \<Rightarrow> 's \<Rightarrow> error option \<times> 's) \<Rightarrow> nat \<Rightarrow> string \<Rightarrow> 's \<Rightarrow> World \<Rightarrow> (error option \<times> 's \<times> World) option" where
  "listPages env folderId handler i pageToken s w =
     (let w1 = logPrintf ''[%03d] listing folder: %s'' [ANat i, AStr folderId] w in
      case Files_List env w1 folderId pageToken of
        Inl err \<Rightarrow>
          Some (Some (Errorf ''Unable to list files, err = %w'' [] err), s,
                emit (CallList folderId pageToken False) w1)
      | Inr resp \<Rightarrow>
          (let w2 = emit (CallList folderId pageToken True) w1 in
           if length (Files resp) = 0 then
             Some (None, s, logPrintf ''No files found in folder: %s'' [AStr folderId] w2)
           else
             (case handleEntries handler (Files resp) s of
                (Some err, s') \<Rightarrow> Some (Some err, s', w2)
              | (None, s') \<Rightarrow>
                  if NextPageToken resp = [] then
                    Some (None, s', logPrintf ''[%03d] finished'' [ANat i] w2)
                  else
                    listPages env folderId handler (i + 1) (NextPageToken resp) s'
                      (logPrintf ''[%03d] nextPageToken = %s'' [ANat i, AStr (NextPageToken resp)] w2))))"

definition listDriveFolder :: "Env \<Rightarrow> string \<Rightarrow> (DriveFile \<Rightarrow> 's \<Rightarrow> error option \<times> 's) \<Rightarrow> 's \<Rightarrow> World \<Rightarrow> (error option \<times> 's \<times> World) option" where
  "listDriveFolder env folderId handler s w = listPages env folderId handler 0 [] s w"

text \<open>
  The handler of the walk, for the task \<open>task\<close> taken from the queue: an entry that is a
  folder is pushed to the back of the queue, any other is appended to the list of tasks;
  both with the path \<open>filepath.Join(task.SavePath, nextFile.Name)\<close>. The state is the
  queue and the list.
\<close>

definition walkHandler :: "Task \<Rightarrow> DriveFile \<Rightarrow> Task list \<times> Task list \<Rightarrow> error option \<times> (Task list \<times> Task list)" where
  "walkHandler task nextFile s =
     (case s of (taskQueue, fileTasks) \<Rightarrow>
        (let dstFilePath = filepath_Join (SavePath task) (Name nextFile);
             nextTask = \<lparr>FileId = Id nextFile, SavePath = dstFilePath,
                         Md5Checksum = DriveFile.Md5Checksum nextFile, Done = False\<rparr>
         in if isDriveFolder nextFile then (None, (taskQueue @ [nextTask], fileTasks))
            else (None, (taskQueue, fileTasks @ [nextTask]))))"

text \<open>
  The loop \<open>for taskQueue.Len() != 0\<close> of \<open>listDriveFolderFiles\<close>. The result is the pair
  that the Go function returns: the list with \<open>nil\<close> for the error, or \<open>nil\<close> (the empty
  list) with an error.
\<close>

partial_function (option) walkLoop :: "Env \<Rightarrow> Task list \<Rightarrow> Task list \<Rightarrow> World \<Rightarrow> ((Task list \<times> error option) \<times> World) option" where
  "walkLoop env taskQueue fileTasks w =
     (case taskQueue of
        [] \<Rightarrow> Some ((fileTasks, None), w)
      | task # rest \<Rightarrow>
          (case Files_Get env w (FileId task) of
             Inl err \<Rightarrow>
               Some (([], Some (Errorf ''get fileId: %s, err = %v'' [FileId task] err)),
                     emit (CallGet (FileId task) False) w)
           | Inr currFile \<Rightarrow>
               (let w1 = emit (CallGet (FileId task) True) w in
                if isDriveFolder currFile then
                  Option.bind
                    (listDriveFolder env (Id currFile) (walkHandler task) (rest, fileTasks)
                       (logPrintf ''>> list folder: %s [%s]'' [AStr (Id currFile), AStr (Name currFile)] w1))
                    (\<lambda>r. case r of
                       (Some err, s', w3) \<Rightarrow>
                         Some (([], Some (Errorf ''list drive folder: %s [%s], err = %w''
                                           [Id currFile, Name currFile] err)), w3)
                     | (None, (taskQueue', fileTasks'), w3) \<Rightarrow> walkLoop env taskQueue' fileTasks' w3)
                else
                  walkLoop env rest
                    (fileTasks @ [\<lparr>FileId = Id currFile,
                                    SavePath = filepath_Join (SavePath task) (Name currFile),
                                    Md5Checksum = DriveFile.Md5Checksum currFile, Done = False\<rparr>])
                    w1)))"

definition listDriveFolderFiles :: "Env \<Rightarrow> Task \<Rightarrow> World \<Rightarrow> ((Task list \<times> error option) \<times> World) option" where
  "listDriveFolderFiles env rootFolder w = walkLoop env [rootFolder] [] w"

section \<open>The command\<close>

text \<open>
  \<open>onRunDownload\<close> from the point where the service exists (lines 120 to 171): load the
  list file; when that fails, walk the tree from \<open>config.Src\<close> with the path \<open>config.Dst\<close>
  and save the list; then run the tasks. The Go function returns nothing; the model
  returns the list, the variable \<open>err\<close> and the world it ends in.
\<close>

record downloadConfig =
  CredFile :: string
  TokenFile :: string
  Src :: string
  Dst :: string
  ListFile :: string

definition onRunDownload :: "Env \<Rightarrow> downloadConfig \<Rightarrow> World \<Rightarrow> (Task list \<times> error option \<times> World) option" where
  "onRunDownload env config w =
     (let root = \<lparr>FileId = Src config, SavePath = Dst config, Md5Checksum = [], Done = False\<rparr> in
      case loadListFile env (ListFile config) w of
        ((fileTasks, None), w1) \<Rightarrow> Some (runTasks env (ListFile config) fileTasks w1)
      | ((fileTasks, Some err), w1) \<Rightarrow>
          Option.bind
            (listDriveFolderFiles env root (logPrintf ''Load list file err = %v'' [AErr err] w1))
            (\<lambda>r. case r of
               ((fileTasks', Some err'), w2) \<Rightarrow>
                 Some (fileTasks', Some err', logPrintf ''list files: err = %v'' [AErr err'] w2)
             | ((fileTasks', None), w2) \<Rightarrow>
                 Some (runTasks env (ListFile config) fileTasks'
                         (snd (saveListFile env fileTasks' (ListFile config) w2)))))"

section \<open>Observations on the trace\<close>

text \<open>
  What a run did, read off the trace: the sleeps (in seconds), the file identifiers whose
  content was requested from the service, the indices of the tasks whose download was
  started (the \<open>Downloading\<close> lines of the log), and the number of times the list file was
  created, which is the number of calls of \<open>saveListFile\<close> when no task is saved at the
  path of the list file.
\<close>

definition sleeps :: "World \<Rightarrow> nat list" where
  "sleeps w = concat (map (\<lambda>ev. case ev of Sleep n \<Rightarrow> [n] | _ \<Rightarrow> []) (trace w))"

definition fetches :: "World \<Rightarrow> string list" where
  "fetches w = concat (map (\<lambda>ev. case ev of CallDownload i _ \<Rightarrow> [i] | _ \<Rightarrow> []) (trace w))"

fun startedIndex :: "event \<Rightarrow> nat list" where
  "startedIndex (Log format (ANat i # _)) =
     (if format = ''Downloading: %05d / %05d (%.2f %%)'' then [i] else [])"
| "startedIndex _ = []"

definition started :: "World \<Rightarrow> nat list" where
  "started w = concat (map startedIndex (trace w))"

definition saves :: "string \<Rightarrow> World \<Rightarrow> nat" where
  "saves listFile w =
     length (filter (\<lambda>ev. case ev of OsCreate p _ \<Rightarrow> p = listFile | _ \<Rightarrow> False) (trace w))"

text \<open>The line that the loop logs for the done task at index \<open>i\<close>.\<close>

definition skipLog :: "nat \<Rightarrow> Task list \<Rightarrow> nat \<Rightarrow> event" where
  "skipLog ntotal fileTasks i =
     Log ''Skipping: %05d / %05d, file: %s'' [ANat i, ANat ntotal, AStr (SavePath (fileTasks ! i))]"

text \<open>
  The attempts of the retry loop on one task, from the world \<open>w\<close> in which the first
  attempt is made: \<open>attemptWorld k\<close> is the world in which attempt \<open>k + 1\<close> is made when
  the attempts before it failed (each failure is followed by its log line and its sleep),
  and \<open>attemptResult k\<close> is what that attempt returns.
\<close>

fun attemptWorld :: "Env \<Rightarrow> Task \<Rightarrow> World \<Rightarrow> nat \<Rightarrow> World" where
  "attemptWorld env task w 0 = w"
| "attemptWorld env task w (Suc k) =
     (case downloadDriveFile env task (attemptWorld env task w k) of
        (Some e, w1) \<Rightarrow> backoff (Suc k) e w1
      | (None, w1) \<Rightarrow> w1)"

definition attemptResult :: "Env \<Rightarrow> Task \<Rightarrow> World \<Rightarrow> nat \<Rightarrow> error option" where
  "attemptResult env task w k = fst (downloadDriveFile env task (attemptWorld env task w k))"

text \<open>
  A task needs no fetch in the world \<open>w\<close> when it is done, or when the local file at its
  path (which is not the list file) has the non-empty fingerprint that the task expects.
\<close>

definition needsNoFetch :: "Env \<Rightarrow> string \<Rightarrow> World \<Rightarrow> Task \<Rightarrow> bool" where
  "needsNoFetch env listFile w task =
     (Done task \<or>
      (SavePath task \<noteq> listFile \<and> Task.Md5Checksum task \<noteq> [] \<and>
       fst (getFileMd5 env (SavePath task) w) = Task.Md5Checksum task))"


text \<open>
  The errors that the log lines of a trace carry, and the errors that a failed download
  of a task returns (\<open>downloadDriveFile\<close> wraps every error in one of two formats).
\<close>

definition loggedErrors :: "World \<Rightarrow> error list" where
  "loggedErrors w =
     concat (map (\<lambda>ev. case ev of
                          Log format args \<Rightarrow> concat (map (\<lambda>a. case a of AErr e \<Rightarrow> [e] | _ \<Rightarrow> []) args)
                        | _ \<Rightarrow> []) (trace w))"


text \<open>
  The list requests of a trace (folder and page token), and the number of list requests
  that failed.
\<close>

definition listCalls :: "World \<Rightarrow> (string \<times> string) list" where
  "listCalls w = concat (map (\<lambda>ev. case ev of CallList f t ok \<Rightarrow> [(f, t)] | _ \<Rightarrow> []) (trace w))"

definition listFailures :: "World \<Rightarrow> nat" where
  "listFailures w =
     length (filter (\<lambda>ev. case ev of CallList f t ok \<Rightarrow> \<not> ok | _ \<Rightarrow> False) (trace w))"

section \<open>Remote trees\<close>

text \<open>
  What the walk is measured against. A remote tree is a file, or a folder with the pages
  in which the service lists its entries, each page with its \<open>nextPageToken\<close>. A service
  serves a tree when, in every world, it answers the metadata request for each folder of
  the tree with the folder, and the list requests for it with its pages: every page has
  entries, the last one has the empty token (a folder with no entries has one empty
  page), and what the metadata says of an entry (folder or not) is what the entry is.
\<close>

datatype Remote = RFile DriveFile | RFolder DriveFile "(Remote list \<times> string) list"

fun meta :: "Remote \<Rightarrow> DriveFile" where
  "meta (RFile f) = f"
| "meta (RFolder f pages) = f"



fun pagesServed :: "Env \<Rightarrow> string \<Rightarrow> string \<Rightarrow> (DriveFile list \<times> string) list \<Rightarrow> bool" where
  "pagesServed env folderId pageToken [] =
     (\<forall>w. case Files_List env w folderId pageToken of Inl err \<Rightarrow> False | Inr resp \<Rightarrow> Files resp = [])"
| "pagesServed env folderId pageToken ((entries, next) # pages) =
     (entries \<noteq> [] \<and>
      (\<forall>w. Files_List env w folderId pageToken = Inr \<lparr>Files = entries, NextPageToken = next\<rparr>) \<and>
      (if next = [] then pages = [] else pagesServed env folderId next pages))"








section \<open>Example worlds and services\<close>

text \<open>
  Concrete inputs, on which the theorems below are instantiated: an empty disk with an
  empty trace; a service whose downloads succeed with the content \<open>hello\<close>; one whose first
  four downloads fail; one whose downloads always fail; one on which the list file
  cannot be created.
\<close>

definition world0 :: World where
  "world0 = \<lparr>fs = Map.empty, trace = []\<rparr>"

definition env0 :: Env where
  "env0 =
     \<lparr>Files_Get = (\<lambda>w i. Inl (External ''notFound'')),
      Files_List = (\<lambda>w f t. Inl (External ''notFound'')),
      Download = (\<lambda>w i. Inr \<lparr>data = ''hello'', readErr = None\<rparr>),
      os_Create = (\<lambda>w p. None),
      md5_hex = (\<lambda>content. ''md5:'' @ content),
      json_render = (\<lambda>v. ''[]''),
      json_parse = (\<lambda>text. Inl (External ''unexpected end of JSON input''))\<rparr>"

definition env_flaky :: Env where
  "env_flaky =
     env0\<lparr>Download := (\<lambda>w i. if length (fetches w) < 4 then Inl (External ''timeout'')
                             else Inr \<lparr>data = ''hello'', readErr = None\<rparr>)\<rparr>"

definition env_down :: Env where
  "env_down = env0\<lparr>Download := (\<lambda>w i. Inl (External ''timeout''))\<rparr>"


definition taskA :: Task where
  "taskA = \<lparr>FileId = ''A'', SavePath = ''out/a'', Md5Checksum = ''md5:hello'', Done = True\<rparr>"

definition taskB :: Task where
  "taskB = \<lparr>FileId = ''B'', SavePath = ''out/b'', Md5Checksum = ''md5:hello'', Done = False\<rparr>"

definition startB :: World where
  "startB = logPrintf ''Downloading: %05d / %05d (%.2f %%)'' [ANat 0, ANat 1] world0"

definition world1 :: World where
  "world1 = \<lparr>fs = [''out/b'' \<mapsto> ''hello''], trace = []\<rparr>"



text \<open>
  A remote tree and a service that serves it: the root folder \<open>R\<close> is listed in two
  pages and holds the files \<open>1\<close> and \<open>2\<close>, the folder \<open>D\<close> with the file \<open>3\<close>, and the empty
  folder \<open>E\<close>.
\<close>

definition plainFile :: "string \<Rightarrow> string \<Rightarrow> Remote" where
  "plainFile i name =
     RFile \<lparr>Id = i, Name = name, MimeType = ''text/plain'', Md5Checksum = ''md5:'' @ i\<rparr>"

definition folderMeta :: "string \<Rightarrow> string \<Rightarrow> DriveFile" where
  "folderMeta i name =
     \<lparr>Id = i, Name = name, MimeType = ''application/vnd.google-apps.folder'', Md5Checksum = []\<rparr>"


definition env_tree1 :: Env where
  "env_tree1 =
     env0\<lparr>Files_Get := (\<lambda>w i.
              if i = ''R'' then Inr (folderMeta ''R'' ''root'')
              else if i = ''D'' then Inr (folderMeta ''D'' ''docs'')
              else if i = ''E'' then Inr (folderMeta ''E'' ''empty'')
              else Inl (External ''notFound'')),
          Files_List := (\<lambda>w i t.
              if i = ''R'' \<and> t = [] then
                Inr \<lparr>Files = [meta (plainFile ''1'' ''a.txt''), folderMeta ''D'' ''docs''],
                     NextPageToken = ''t2''\<rparr>
              else if i = ''R'' \<and> t = ''t2'' then
                Inr \<lparr>Files = [folderMeta ''E'' ''empty'', meta (plainFile ''2'' ''b.txt'')],
                     NextPageToken = []\<rparr>
              else if i = ''D'' \<and> t = [] then
                Inr \<lparr>Files = [meta (plainFile ''3'' ''c.txt'')], NextPageToken = []\<rparr>
              else if i = ''E'' \<and> t = [] then Inr \<lparr>Files = [], NextPageToken = []\<rparr>
              else Inl (External ''notFound''))\<rparr>"

definition rootR :: Task where
  "rootR = \<lparr>FileId = ''R'', SavePath = ''./out'', Md5Checksum = [], Done = False\<rparr>"





definition env_gap :: Env where
  "env_gap =
     env0\<lparr>Files_Get := (\<lambda>w i. if i = ''G'' then Inr (folderMeta ''G'' ''gap'')
                              else Inl (External ''notFound'')),
          Files_List := (\<lambda>w i t.
              if i = ''G'' \<and> t = [] then Inr \<lparr>Files = [], NextPageToken = ''t2''\<rparr>
              else if i = ''G'' \<and> t = ''t2'' then
                Inr \<lparr>Files = [meta (plainFile ''9'' ''z.txt'')], NextPageToken = []\<rparr>
              else Inl (External ''notFound''))\<rparr>"

definition rootG :: Task where
  "rootG = \<lparr>FileId = ''G'', SavePath = ''./out'', Md5Checksum = [], Done = False\<rparr>"

definition env_unlistable :: Env where
  "env_unlistable = env_tree1\<lparr>Files_List := (\<lambda>w i t. Inl (External ''rateLimitExceeded''))\<rparr>"

definition taskE :: Task where
  "taskE = \<lparr>FileId = ''E'', SavePath = ''out/empty'', Md5Checksum = [], Done = False\<rparr>"



section \<open>The transfer executor: lemmas\<close>

declare retryLoop.simps [simp del] runLoop.simps [simp del]

declare listPages.simps [code] walkLoop.simps [code]

subsection \<open>Worlds and observations\<close>

lemma emit_simps [simp]: "trace (emit ev w) = trace w @ [ev]" "fs (emit ev w) = fs w"
  by (simp_all add: emit_def)

lemma logPrintf_simps [simp]:
  "trace (logPrintf f as w) = trace w @ [Log f as]" "fs (logPrintf f as w) = fs w"
  by (simp_all add: logPrintf_def)

lemma writeFile_simps [simp]:
  "trace (writeFile p c w) = trace w" "fs (writeFile p c w) = (fs w)(p \<mapsto> c)"
  by (simp_all add: writeFile_def)

lemma backoff_simps [simp]:
  "trace (backoff k e w) =
     trace w @ [Log ''retry [%02d] in %v, err = %v'' [ANat k, ANat (k * 5), AErr e], Sleep (k * 5)]"
  "fs (backoff k e w) = fs w"
  by (simp_all add: backoff_def)

lemma saveListFile_trace:
  "trace (snd (saveListFile env ts lf w)) =
     trace w @ (case os_Create env w lf of
                  Some e \<Rightarrow> [OsCreate lf False]
                | None \<Rightarrow> [OsCreate lf True, OsWrite lf (json_render env (Marshal_tasks ts))])"
  by (simp add: saveListFile_def Let_def split: option.splits)

lemma downloadDriveFile_trace:
  "\<exists>evs. trace (snd (downloadDriveFile env t w)) =
           trace w @ OsOpen (SavePath t) (fs w (SavePath t) \<noteq> None) # evs \<and>
         (\<forall>ev\<in>set evs. (\<forall>n. ev \<noteq> Sleep n) \<and> startedIndex ev = [] \<and>
            (\<forall>p b. ev = OsCreate p b \<longrightarrow> p = SavePath t))"
  by (auto simp: downloadDriveFile_def getFileMd5_def saveFile_def Let_def
           split: option.splits sum.splits prod.splits)

lemma obs_append:
  "trace w' = trace w @ evs \<Longrightarrow>
     sleeps w' = sleeps w @ concat (map (\<lambda>ev. case ev of Sleep n \<Rightarrow> [n] | _ \<Rightarrow> []) evs)"
  "trace w' = trace w @ evs \<Longrightarrow>
     fetches w' = fetches w @ concat (map (\<lambda>ev. case ev of CallDownload i _ \<Rightarrow> [i] | _ \<Rightarrow> []) evs)"
  "trace w' = trace w @ evs \<Longrightarrow> started w' = started w @ concat (map startedIndex evs)"
  "trace w' = trace w @ evs \<Longrightarrow>
     saves lf w' = saves lf w + length (filter (\<lambda>ev. case ev of OsCreate p _ \<Rightarrow> p = lf | _ \<Rightarrow> False) evs)"
  by (simp_all add: sleeps_def fetches_def started_def saves_def)

lemma concat_map_Nil: "(\<forall>x\<in>set xs. f x = []) \<Longrightarrow> concat (map f xs) = []"
  by (induction xs) auto

lemma downloadDriveFile_sleeps [simp]: "sleeps (snd (downloadDriveFile env t w)) = sleeps w"
proof -
  obtain evs where t: "trace (snd (downloadDriveFile env t w)) =
      trace w @ OsOpen (SavePath t) (fs w (SavePath t) \<noteq> None) # evs"
    and n: "\<forall>ev\<in>set evs. (\<forall>n. ev \<noteq> Sleep n)"
    using downloadDriveFile_trace [of env t w] by blast
  have "concat (map (\<lambda>ev. case ev of Sleep n \<Rightarrow> [n] | _ \<Rightarrow> []) evs) = []"
    by (rule concat_map_Nil) (use n in \<open>auto split: event.splits\<close>)
  then show ?thesis
    using obs_append(1) [OF t] by simp
qed

lemma downloadDriveFile_started [simp]: "started (snd (downloadDriveFile env t w)) = started w"
proof -
  obtain evs where t: "trace (snd (downloadDriveFile env t w)) =
      trace w @ OsOpen (SavePath t) (fs w (SavePath t) \<noteq> None) # evs"
    and n: "\<forall>ev\<in>set evs. startedIndex ev = []"
    using downloadDriveFile_trace [of env t w] by blast
  have "concat (map startedIndex evs) = []"
    by (rule concat_map_Nil) (use n in auto)
  then show ?thesis
    using obs_append(3) [OF t] by simp
qed


lemma backoff_obs [simp]:
  "sleeps (backoff k e w) = sleeps w @ [k * 5]"
  "started (backoff k e w) = started w"
  "fetches (backoff k e w) = fetches w"
  "saves lf (backoff k e w) = saves lf w"
  by (simp_all add: sleeps_def started_def fetches_def saves_def)

lemma logPrintf_obs [simp]:
  "sleeps (logPrintf f as w) = sleeps w"
  "fetches (logPrintf f as w) = fetches w"
  "saves lf (logPrintf f as w) = saves lf w"
  "started (logPrintf f as w) = started w @ startedIndex (Log f as)"
  by (simp_all add: sleeps_def started_def fetches_def saves_def)

lemma saveListFile_obs [simp]:
  "sleeps (snd (saveListFile env ts lf w)) = sleeps w"
  "fetches (snd (saveListFile env ts lf w)) = fetches w"
  "started (snd (saveListFile env ts lf w)) = started w"
  "saves lf (snd (saveListFile env ts lf w)) = Suc (saves lf w)"
  by (simp_all add: sleeps_def started_def fetches_def saves_def saveListFile_trace split: option.splits)

subsection \<open>The retry loop\<close>

lemma retryLoop_succeeds_after:
  "k + m \<le> 4 \<Longrightarrow> \<forall>j<m. attemptResult env t w (k + j) \<noteq> None \<Longrightarrow>
   attemptResult env t w (k + m) = None \<Longrightarrow>
   retryLoop env t (Suc k) err (attemptWorld env t w k) =
     (None, snd (downloadDriveFile env t (attemptWorld env t w (k + m))))"
proof (induction m arbitrary: k err)
  case 0
  then show ?case
    by (subst retryLoop.simps) (auto simp: attemptResult_def split: prod.splits option.splits)
next
  case (Suc m)
  from Suc.prems(2) have f: "attemptResult env t w k \<noteq> None"
    by (metis add.right_neutral zero_less_Suc)
  then obtain e w1 where d: "downloadDriveFile env t (attemptWorld env t w k) = (Some e, w1)"
    by (cases "downloadDriveFile env t (attemptWorld env t w k)") (auto simp: attemptResult_def)
  have "retryLoop env t (Suc (Suc k)) (Some e) (attemptWorld env t w (Suc k)) =
      (None, snd (downloadDriveFile env t (attemptWorld env t w (Suc k + m))))"
  proof (rule Suc.IH)
    show "Suc k + m \<le> 4" using Suc.prems(1) by simp
    show "\<forall>j<m. attemptResult env t w (Suc k + j) \<noteq> None"
      using Suc.prems(2) by (metis Suc_less_eq add_Suc_shift)
    show "attemptResult env t w (Suc k + m) = None"
      using Suc.prems(3) by simp
  qed
  then show ?case
    using Suc.prems(1) d by (subst retryLoop.simps) simp
qed

lemma retryLoop_all_fail:
  "k \<le> 5 \<Longrightarrow> \<forall>j<5 - k. attemptResult env t w (k + j) \<noteq> None \<Longrightarrow>
   retryLoop env t (Suc k) err (attemptWorld env t w k) =
     (if k = 5 then err else attemptResult env t w 4, attemptWorld env t w 5)"
proof (induction "5 - k" arbitrary: k err)
  case 0
  then show ?case by (subst retryLoop.simps) simp
next
  case (Suc m)
  then have k: "k \<le> 4" by simp
  from Suc have f: "attemptResult env t w k \<noteq> None"
    by (metis add.right_neutral zero_less_Suc)
  then obtain e w1 where d: "downloadDriveFile env t (attemptWorld env t w k) = (Some e, w1)"
    by (cases "downloadDriveFile env t (attemptWorld env t w k)") (auto simp: attemptResult_def)
  have "retryLoop env t (Suc (Suc k)) (Some e) (attemptWorld env t w (Suc k)) =
      (if Suc k = 5 then Some e else attemptResult env t w 4, attemptWorld env t w 5)"
  proof (rule Suc.hyps(1))
    show "m = 5 - Suc k" using Suc.hyps(2) by simp
    show "Suc k \<le> 5" using k by simp
    show "\<forall>j<5 - Suc k. attemptResult env t w (Suc k + j) \<noteq> None"
    proof (intro allI impI)
      fix j assume "j < 5 - Suc k"
      then have "Suc j < 5 - k" by simp
      with Suc.prems(2) have "attemptResult env t w (k + Suc j) \<noteq> None" by blast
      then show "attemptResult env t w (Suc k + j) \<noteq> None" by simp
    qed
  qed
  moreover have "Suc k = 5 \<Longrightarrow> attemptResult env t w 4 = Some e"
    using d by (simp add: attemptResult_def)
  ultimately show ?case
    using k d by (subst retryLoop.simps) auto
qed

lemma attemptWorld_sleeps:
  "\<forall>j<k. attemptResult env t w j \<noteq> None \<Longrightarrow>
     sleeps (attemptWorld env t w k) = sleeps w @ map (\<lambda>j. j * 5) [1..<Suc k]"
proof (induction k)
  case 0
  then show ?case by simp
next
  case (Suc k)
  then have "attemptResult env t w k \<noteq> None" by simp
  then obtain e w1 where d: "downloadDriveFile env t (attemptWorld env t w k) = (Some e, w1)"
    by (cases "downloadDriveFile env t (attemptWorld env t w k)") (auto simp: attemptResult_def)
  have "sleeps w1 = sleeps (attemptWorld env t w k)"
    using downloadDriveFile_sleeps [of env t "attemptWorld env t w k"] d by simp
  with Suc d show ?case by simp
qed

subsection \<open>The loop over the tasks\<close>

lemma runLoop_length [simp]: "length (fst (runLoop env lf n i ts w)) = length ts"
proof (induction env lf n i ts w rule: runLoop.induct)
  case (1 env lf n i ts w)
  show ?case
    by (subst runLoop.simps) (use 1 in \<open>auto simp: Let_def split: prod.splits option.splits\<close>)
qed

lemma runLoop_frame:
  "j < length ts \<Longrightarrow>
     FileId (fst (runLoop env lf n i ts w) ! j) = FileId (ts ! j) \<and>
     SavePath (fst (runLoop env lf n i ts w) ! j) = SavePath (ts ! j) \<and>
     Task.Md5Checksum (fst (runLoop env lf n i ts w) ! j) = Task.Md5Checksum (ts ! j) \<and>
     (Done (ts ! j) \<longrightarrow> Done (fst (runLoop env lf n i ts w) ! j))"
proof (induction env lf n i ts w rule: runLoop.induct)
  case (1 env lf n i ts w)
  show ?case
    by (subst (1 2 3 4) runLoop.simps)
      (use 1 in \<open>auto simp: Let_def nth_list_update split: prod.splits option.splits\<close>)
qed

lemma runLoop_below:
  "j < i \<Longrightarrow> j < length ts \<Longrightarrow> fst (runLoop env lf n i ts w) ! j = ts ! j"
proof (induction env lf n i ts w rule: runLoop.induct)
  case (1 env lf n i ts w)
  show ?case
    by (subst runLoop.simps)
      (use 1 in \<open>auto simp: Let_def nth_list_update split: prod.splits option.splits\<close>)
qed

lemma runLoop_skip:
  "i < length ts \<Longrightarrow> Done (ts ! i) \<Longrightarrow>
     runLoop env lf n i ts w = runLoop env lf n (Suc i) ts (w\<lparr>trace := trace w @ [skipLog n ts i]\<rparr>)"
  by (subst runLoop.simps) (simp add: skipLog_def logPrintf_def emit_def)

lemma runLoop_success:
  "i < length ts \<Longrightarrow> \<not> Done (ts ! i) \<Longrightarrow>
   retryLoop env (ts ! i) 1 None
     (logPrintf ''Downloading: %05d / %05d (%.2f %%)'' [ANat i, ANat n] w) = (None, w2) \<Longrightarrow>
   runLoop env lf n i ts w =
     runLoop env lf n (Suc i) (ts[i := (ts ! i)\<lparr>Done := True\<rparr>])
       (if (i + 1) mod 10 = 0
        then snd (saveListFile env (ts[i := (ts ! i)\<lparr>Done := True\<rparr>]) lf w2) else w2)"
  by (subst runLoop.simps) (simp add: Let_def)

lemma runLoop_abort:
  "i < length ts \<Longrightarrow> \<not> Done (ts ! i) \<Longrightarrow>
   retryLoop env (ts ! i) 1 None
     (logPrintf ''Downloading: %05d / %05d (%.2f %%)'' [ANat i, ANat n] w) = (Some e, w2) \<Longrightarrow>
   runLoop env lf n i ts w = (ts, Some e, logPrintf ''download err = %v'' [AErr e] w2)"
  by (subst runLoop.simps) (simp add: Let_def)

lemma runLoop_marks_done:
  assumes "i < length ts" "\<not> Done (ts ! i)"
    and "retryLoop env (ts ! i) 1 None
     (logPrintf ''Downloading: %05d / %05d (%.2f %%)'' [ANat i, ANat n] w) = (None, w2)"
  shows "Done (fst (runLoop env lf n i ts w) ! i)"
proof -
  have "Done ((ts[i := (ts ! i)\<lparr>Done := True\<rparr>]) ! i)"
    using assms(1) by simp
  then show ?thesis
    unfolding runLoop_success [OF assms]
    using runLoop_frame [of i "ts[i := (ts ! i)\<lparr>Done := True\<rparr>]"] assms(1) by simp
qed

text \<open>
  Claim C3. At a task that is not done, when the first four attempts fail: if the fifth
  succeeds, the loop goes on to the next task with this task marked done, having slept 5,
  10, 15 and 20 seconds; if the fifth fails too, the loop ends there with that error, the
  list unchanged and no later task touched, having slept 5, 10, 15, 20 and 25 seconds.
\<close>

theorem retry_backoff:
  assumes i: "i < length ts" and nd: "\<not> Done (ts ! i)"
    and w0: "w0 = logPrintf ''Downloading: %05d / %05d (%.2f %%)'' [ANat i, ANat n] w"
    and fails: "\<forall>k<4. attemptResult env (ts ! i) w0 k \<noteq> None"
  shows "(attemptResult env (ts ! i) w0 4 = None \<longrightarrow>
            runLoop env lf n i ts w =
              runLoop env lf n (Suc i) (ts[i := (ts ! i)\<lparr>Done := True\<rparr>])
                (if (i + 1) mod 10 = 0
                 then snd (saveListFile env (ts[i := (ts ! i)\<lparr>Done := True\<rparr>]) lf
                        (snd (downloadDriveFile env (ts ! i) (attemptWorld env (ts ! i) w0 4))))
                 else snd (downloadDriveFile env (ts ! i) (attemptWorld env (ts ! i) w0 4))) \<and>
            Done (fst (runLoop env lf n i ts w) ! i) \<and>
            sleeps (snd (downloadDriveFile env (ts ! i) (attemptWorld env (ts ! i) w0 4))) =
              sleeps w @ [5, 10, 15, 20]) \<and>
         (\<forall>e. attemptResult env (ts ! i) w0 4 = Some e \<longrightarrow>
            runLoop env lf n i ts w =
              (ts, Some e, logPrintf ''download err = %v'' [AErr e] (attemptWorld env (ts ! i) w0 5)) \<and>
            sleeps (attemptWorld env (ts ! i) w0 5) = sleeps w @ [5, 10, 15, 20, 25])"
proof (intro conjI allI impI)
  assume ok: "attemptResult env (ts ! i) w0 4 = None"
  have r: "retryLoop env (ts ! i) 1 None w0 =
      (None, snd (downloadDriveFile env (ts ! i) (attemptWorld env (ts ! i) w0 4)))"
    using retryLoop_succeeds_after [of 0 4 env "ts ! i" w0 None] fails ok by simp
  show "runLoop env lf n i ts w =
      runLoop env lf n (Suc i) (ts[i := (ts ! i)\<lparr>Done := True\<rparr>])
        (if (i + 1) mod 10 = 0
         then snd (saveListFile env (ts[i := (ts ! i)\<lparr>Done := True\<rparr>]) lf
                (snd (downloadDriveFile env (ts ! i) (attemptWorld env (ts ! i) w0 4))))
         else snd (downloadDriveFile env (ts ! i) (attemptWorld env (ts ! i) w0 4)))"
    using runLoop_success [OF i nd r [unfolded w0]] w0 by simp
  show "Done (fst (runLoop env lf n i ts w) ! i)"
    using runLoop_marks_done [OF i nd r [unfolded w0]] .
  have "sleeps (attemptWorld env (ts ! i) w0 4) = sleeps w0 @ map (\<lambda>j. j * 5) [1..<Suc 4]"
    using attemptWorld_sleeps [of 4 env "ts ! i" w0] fails by simp
  moreover have "[1..<Suc 4] = [1, 2, 3, 4]"
    by (simp add: upt_rec)
  ultimately show "sleeps (snd (downloadDriveFile env (ts ! i) (attemptWorld env (ts ! i) w0 4))) =
      sleeps w @ [5, 10, 15, 20]"
    by (simp add: w0)
next
  fix e assume bad: "attemptResult env (ts ! i) w0 4 = Some e"
  have all: "\<forall>j<5. attemptResult env (ts ! i) w0 j \<noteq> None"
  proof (intro allI impI)
    fix j :: nat assume "j < 5"
    then have "j < 4 \<or> j = 4" by arith
    then show "attemptResult env (ts ! i) w0 j \<noteq> None"
      using fails bad by auto
  qed
  have r: "retryLoop env (ts ! i) 1 None w0 = (Some e, attemptWorld env (ts ! i) w0 5)"
    using retryLoop_all_fail [of 0 env "ts ! i" w0 None] all bad by simp
  show "runLoop env lf n i ts w =
      (ts, Some e, logPrintf ''download err = %v'' [AErr e] (attemptWorld env (ts ! i) w0 5))"
    using runLoop_abort [OF i nd r [unfolded w0]] w0 by simp
  have "sleeps (attemptWorld env (ts ! i) w0 5) = sleeps w0 @ map (\<lambda>j. j * 5) [1..<Suc 5]"
    using attemptWorld_sleeps [of 5 env "ts ! i" w0] all by simp
  moreover have "[1..<Suc 5] = [1, 2, 3, 4, 5]"
    by (simp add: upt_rec)
  ultimately show "sleeps (attemptWorld env (ts ! i) w0 5) = sleeps w @ [5, 10, 15, 20, 25]"
    by (simp add: w0)
qed

lemma all_less_4: "(\<forall>k<4. P k) = (P 0 \<and> P 1 \<and> P 2 \<and> P (3::nat))"
proof -
  have "\<And>k::nat. k < 4 \<longleftrightarrow> k = 0 \<or> k = 1 \<or> k = 2 \<or> k = 3" by arith
  then show ?thesis by auto
qed

lemma flaky_fails: "\<forall>k<4. attemptResult env_flaky taskB startB k \<noteq> None"
  unfolding all_less_4 by code_simp

lemma flaky_ok: "attemptResult env_flaky taskB startB 4 = None"
  by code_simp

lemma down_fails: "\<forall>k<4. attemptResult env_down taskB startB k \<noteq> None"
  unfolding all_less_4 by code_simp

lemma down_bad: "attemptResult env_down taskB startB 4 = Some (Errorf ''download file: %s, err = %w'' [''out/b''] (External ''timeout''))"
  by code_simp

theorem retry_backoff_witness:
  "Done (fst (runLoop env_flaky ''list.json'' 1 0 [taskB] world0) ! 0) \<and>
   sleeps (snd (downloadDriveFile env_flaky taskB (attemptWorld env_flaky taskB startB 4))) =
     [5, 10, 15, 20] \<and>
   fst (runLoop env_down ''list.json'' 1 0 [taskB] world0) = [taskB] \<and>
   fst (snd (runLoop env_down ''list.json'' 1 0 [taskB] world0)) =
     Some (Errorf ''download file: %s, err = %w'' [''out/b''] (External ''timeout'')) \<and>
   sleeps (attemptWorld env_down taskB startB 5) = [5, 10, 15, 20, 25]"
proof -
  have nd: "\<not> Done ([taskB] ! 0)" and i: "0 < length [taskB]"
    by (simp_all add: taskB_def)
  have s: "sleeps world0 = []"
    by (simp add: sleeps_def world0_def)
  have ff: "\<forall>k<4. attemptResult env_flaky ([taskB] ! 0) startB k \<noteq> None"
    and df: "\<forall>k<4. attemptResult env_down ([taskB] ! 0) startB k \<noteq> None"
    and r1: "attemptResult env_flaky ([taskB] ! 0) startB 4 = None"
    and r2: "attemptResult env_down ([taskB] ! 0) startB 4 =
      Some (Errorf ''download file: %s, err = %w'' [''out/b''] (External ''timeout''))"
    using flaky_fails down_fails flaky_ok down_bad by simp_all
  note c = retry_backoff [OF i nd startB_def ff, of "''list.json''", THEN conjunct1, THEN mp, OF r1]
  note d = retry_backoff [OF i nd startB_def df, of "''list.json''", THEN conjunct2, THEN spec,
      THEN mp, OF r2]
  have a: "Done (fst (runLoop env_flaky ''list.json'' 1 0 [taskB] world0) ! 0) \<and>
      sleeps (snd (downloadDriveFile env_flaky taskB (attemptWorld env_flaky taskB startB 4))) =
        sleeps world0 @ [5, 10, 15, 20]"
    using c [THEN conjunct2] by simp
  have b: "runLoop env_down ''list.json'' 1 0 [taskB] world0 =
        ([taskB], Some (Errorf ''download file: %s, err = %w'' [''out/b''] (External ''timeout'')),
         logPrintf ''download err = %v''
           [AErr (Errorf ''download file: %s, err = %w'' [''out/b''] (External ''timeout''))]
           (attemptWorld env_down taskB startB 5)) \<and>
      sleeps (attemptWorld env_down taskB startB 5) = sleeps world0 @ [5, 10, 15, 20, 25]"
    using d by simp
  show ?thesis
    using a b by (simp add: s)
qed

text \<open>
  Claim C10. A run changes nothing of the task list but \<open>Done\<close> flags, and these only
  from false to true: the length, the order and the fields \<open>FileId\<close>, \<open>SavePath\<close> and
  \<open>Md5Checksum\<close> of every task are the same after the run.
\<close>

theorem runTasks_changes_only_Done:
  "length (fst (runTasks env listFile fileTasks w)) = length fileTasks \<and>
   (\<forall>j<length fileTasks.
      FileId (fst (runTasks env listFile fileTasks w) ! j) = FileId (fileTasks ! j) \<and>
      SavePath (fst (runTasks env listFile fileTasks w) ! j) = SavePath (fileTasks ! j) \<and>
      Task.Md5Checksum (fst (runTasks env listFile fileTasks w) ! j) = Task.Md5Checksum (fileTasks ! j) \<and>
      (Done (fileTasks ! j) \<longrightarrow> Done (fst (runTasks env listFile fileTasks w) ! j)))"
proof -
  have "fst (runTasks env listFile fileTasks w) =
      fst (runLoop env listFile (length fileTasks) 0 fileTasks
            (logPrintf ''Total files: %d'' [ANat (length fileTasks)] w))"
    by (simp add: runTasks_def Let_def split: prod.splits)
  then show ?thesis
    using runLoop_frame [of _ fileTasks] by simp
qed

theorem runTasks_changes_only_Done_witness:
  "length (fst (runTasks env0 ''list.json'' [taskA, taskB] world0)) = 2 \<and>
   FileId (fst (runTasks env0 ''list.json'' [taskA, taskB] world0) ! 1) = ''B'' \<and>
   SavePath (fst (runTasks env0 ''list.json'' [taskA, taskB] world0) ! 1) = ''out/b'' \<and>
   Task.Md5Checksum (fst (runTasks env0 ''list.json'' [taskA, taskB] world0) ! 1) = ''md5:hello'' \<and>
   Done ([taskA, taskB] ! 0) \<and>
   Done (fst (runTasks env0 ''list.json'' [taskA, taskB] world0) ! 0)"
  using runTasks_changes_only_Done
    [where fileTasks = "[taskA, taskB]" and env = env0 and listFile = "''list.json''" and w = world0]
  by (simp add: taskA_def taskB_def)

subsection \<open>The trace only grows\<close>

lemma downloadDriveFile_prefix: "prefix (trace w) (trace (snd (downloadDriveFile env t w)))"
  using downloadDriveFile_trace [of env t w] by (auto simp: prefix_def)

lemma saveListFile_prefix: "prefix (trace w) (trace (snd (saveListFile env ts lf w)))"
  by (simp add: saveListFile_trace)

lemma retryLoop_prefix: "prefix (trace w) (trace (snd (retryLoop env t k err w)))"
proof (induction env t k err w rule: retryLoop.induct)
  case (1 env task k err w)
  show ?case
  proof (cases "k \<le> 5")
    case False
    then show ?thesis by (subst retryLoop.simps) simp
  next
    case True
    obtain r w1 where d: "downloadDriveFile env task w = (r, w1)"
      by (cases "downloadDriveFile env task w")
    have p1: "prefix (trace w) (trace w1)"
      using downloadDriveFile_prefix [of w env task] d by simp
    show ?thesis
    proof (cases r)
      case None
      then show ?thesis using True d p1 by (subst retryLoop.simps) simp
    next
      case (Some e)
      have "prefix (trace (backoff k e w1)) (trace (snd (retryLoop env task (k + 1) (Some e) (backoff k e w1))))"
        using 1 [OF True d [symmetric] Some] .
      moreover have "prefix (trace w1) (trace (backoff k e w1))" by simp
      ultimately have "prefix (trace w1) (trace (snd (retryLoop env task (k + 1) (Some e) (backoff k e w1))))"
        by (rule prefix_order.trans [rotated])
      with p1 have "prefix (trace w) (trace (snd (retryLoop env task (k + 1) (Some e) (backoff k e w1))))"
        by (rule prefix_order.trans)
      then show ?thesis using True d Some by (subst retryLoop.simps) simp
    qed
  qed
qed

lemma retryLoop_first:
  "prefix (trace (snd (downloadDriveFile env t w))) (trace (snd (retryLoop env t 1 err w)))"
proof -
  obtain r w1 where d: "downloadDriveFile env t w = (r, w1)"
    by (cases "downloadDriveFile env t w")
  show ?thesis
  proof (cases r)
    case None
    then show ?thesis using d by (subst retryLoop.simps) simp
  next
    case (Some e)
    have "prefix (trace w1) (trace (backoff 1 e w1))" by simp
    then have "prefix (trace w1) (trace (snd (retryLoop env t (1 + 1) (Some e) (backoff 1 e w1))))"
      using retryLoop_prefix [of "backoff 1 e w1" env t "1 + 1" "Some e"] by (rule prefix_order.trans)
    then show ?thesis using d Some by (subst retryLoop.simps) simp
  qed
qed

lemma runLoop_prefix: "prefix (trace w) (trace (snd (snd (runLoop env lf n i ts w))))"
proof (induction env lf n i ts w rule: runLoop.induct)
  case (1 env lf n i ts w)
  show ?case
  proof (cases "i < length ts")
    case False
    then show ?thesis by (subst runLoop.simps) simp
  next
    case True
    show ?thesis
    proof (cases "Done (ts ! i)")
      case d: True
      have "prefix (trace w @ [skipLog n ts i]) (trace (snd (snd (runLoop env lf n i ts w))))"
        using 1(1) [OF True refl d] True d by (subst runLoop.simps) (simp add: skipLog_def)
      moreover have "prefix (trace w) (trace w @ [skipLog n ts i])" by simp
      ultimately show ?thesis by (rule prefix_order.trans [rotated])
    next
      case nd: False
      let ?w0 = "logPrintf ''Downloading: %05d / %05d (%.2f %%)'' [ANat i, ANat n] w"
      obtain r w2 where rl: "retryLoop env (ts ! i) 1 None ?w0 = (r, w2)"
        by (cases "retryLoop env (ts ! i) 1 None ?w0")
      have "prefix (trace w) (trace ?w0)" by simp
      moreover have "prefix (trace ?w0) (trace w2)"
        using retryLoop_prefix [of ?w0 env "ts ! i" 1 None] rl by simp
      ultimately have p2: "prefix (trace w) (trace w2)"
        by (rule prefix_order.trans)
      show ?thesis
      proof (cases r)
        case (Some e)
        have "runLoop env lf n i ts w = (ts, Some e, logPrintf ''download err = %v'' [AErr e] w2)"
          using runLoop_abort [OF True nd] rl Some by simp
        then show ?thesis using p2 by (auto simp: prefix_def)
      next
        case None
        let ?ts = "ts[i := (ts ! i)\<lparr>Done := True\<rparr>]"
        let ?w3 = "if (i + 1) mod 10 = 0 then snd (saveListFile env ?ts lf w2) else w2"
        have a: "prefix (trace ?w3) (trace (snd (snd (runLoop env lf n (Suc i) ?ts ?w3))))"
          using 1(2) [OF True refl nd rl [symmetric] None refl refl] by simp
        have b: "prefix (trace w2) (trace ?w3)"
          using saveListFile_prefix [of w2 env ?ts lf] by simp
        have e: "runLoop env lf n i ts w = runLoop env lf n (Suc i) ?ts ?w3"
          using runLoop_success [OF True nd] rl None by simp
        have "prefix (trace w2) (trace (snd (snd (runLoop env lf n i ts w))))"
          unfolding e by (rule prefix_order.trans [OF b a])
        with p2 show ?thesis by (rule prefix_order.trans)
      qed
    qed
  qed
qed

lemma runLoop_first:
  assumes "i < length ts" "\<not> Done (ts ! i)"
  shows "prefix (trace (snd (downloadDriveFile env (ts ! i)
            (logPrintf ''Downloading: %05d / %05d (%.2f %%)'' [ANat i, ANat n] w))))
          (trace (snd (snd (runLoop env lf n i ts w))))"
proof -
  let ?w0 = "logPrintf ''Downloading: %05d / %05d (%.2f %%)'' [ANat i, ANat n] w"
  obtain r w2 where rl: "retryLoop env (ts ! i) 1 None ?w0 = (r, w2)"
    by (cases "retryLoop env (ts ! i) 1 None ?w0")
  have p: "prefix (trace (snd (downloadDriveFile env (ts ! i) ?w0))) (trace w2)"
    using retryLoop_first [of env "ts ! i" ?w0 None] rl by simp
  show ?thesis
  proof (cases r)
    case (Some e)
    have "runLoop env lf n i ts w = (ts, Some e, logPrintf ''download err = %v'' [AErr e] w2)"
      using runLoop_abort [OF assms] rl Some by simp
    then show ?thesis using p by (auto simp: prefix_def)
  next
    case None
    let ?ts = "ts[i := (ts ! i)\<lparr>Done := True\<rparr>]"
    let ?w3 = "if (i + 1) mod 10 = 0 then snd (saveListFile env ?ts lf w2) else w2"
    have a: "prefix (trace ?w3) (trace (snd (snd (runLoop env lf n (Suc i) ?ts ?w3))))"
      by (rule runLoop_prefix)
    have b: "prefix (trace w2) (trace ?w3)"
      using saveListFile_prefix [of w2 env ?ts lf] by simp
    have e: "runLoop env lf n i ts w = runLoop env lf n (Suc i) ?ts ?w3"
      using runLoop_success [OF assms] rl None by simp
    have "prefix (trace w2) (trace (snd (snd (runLoop env lf n i ts w))))"
      unfolding e by (rule prefix_order.trans [OF b a])
    with p show ?thesis by (rule prefix_order.trans)
  qed
qed

lemma runLoop_skip_many:
  "i + k \<le> length ts \<Longrightarrow> \<forall>j. i \<le> j \<and> j < i + k \<longrightarrow> Done (ts ! j) \<Longrightarrow>
     runLoop env lf n i ts w =
       runLoop env lf n (i + k) ts (w\<lparr>trace := trace w @ map (skipLog n ts) [i..<i + k]\<rparr>)"
proof (induction k arbitrary: i w)
  case 0
  then show ?case by simp
next
  case (Suc k)
  have d: "Done (ts ! i)" and i: "i < length ts" using Suc.prems by auto
  have "runLoop env lf n (Suc i) ts (w\<lparr>trace := trace w @ [skipLog n ts i]\<rparr>) =
      runLoop env lf n (Suc i + k) ts
        (w\<lparr>trace := trace w @ [skipLog n ts i]\<rparr>
          \<lparr>trace := trace (w\<lparr>trace := trace w @ [skipLog n ts i]\<rparr>) @ map (skipLog n ts) [Suc i..<Suc i + k]\<rparr>)"
    by (rule Suc.IH) (use Suc.prems in auto)
  moreover have "[i..<i + Suc k] = i # [Suc i..<Suc i + k]"
    by (simp add: upt_rec)
  ultimately show ?case
    using runLoop_skip [OF i d, of env lf n w] by simp
qed

lemma retryLoop_started [simp]: "started (snd (retryLoop env t k err w)) = started w"
proof (induction env t k err w rule: retryLoop.induct)
  case (1 env task k err w)
  show ?case
  proof (cases "k \<le> 5")
    case False
    then show ?thesis by (subst retryLoop.simps) simp
  next
    case True
    obtain r w1 where d: "downloadDriveFile env task w = (r, w1)"
      by (cases "downloadDriveFile env task w")
    have s1: "started w1 = started w"
      using downloadDriveFile_started [of env task w] d by simp
    show ?thesis
    proof (cases r)
      case None
      then show ?thesis using True d s1 by (subst retryLoop.simps) simp
    next
      case (Some e)
      have "started (snd (retryLoop env task (k + 1) (Some e) (backoff k e w1))) = started (backoff k e w1)"
        using 1 [OF True d [symmetric] Some] .
      then show ?thesis using True d Some s1 by (subst retryLoop.simps) simp
    qed
  qed
qed

lemma runLoop_started:
  "\<exists>js. started (snd (snd (runLoop env lf n i ts w))) = started w @ js \<and>
        sorted_wrt (<) js \<and> (\<forall>j\<in>set js. i \<le> j \<and> j < length ts \<and> \<not> Done (ts ! j))"
proof (induction env lf n i ts w rule: runLoop.induct)
  case (1 env lf n i ts w)
  show ?case
  proof (cases "i < length ts")
    case False
    then show ?thesis by (subst runLoop.simps) simp
  next
    case True
    show ?thesis
    proof (cases "Done (ts ! i)")
      case d: True
      obtain js where js: "started (snd (snd (runLoop env lf n (i + 1) ts
            (logPrintf ''Skipping: %05d / %05d, file: %s'' [ANat i, ANat n, AStr (SavePath (ts ! i))] w)))) =
          started (logPrintf ''Skipping: %05d / %05d, file: %s'' [ANat i, ANat n, AStr (SavePath (ts ! i))] w) @ js"
        and s: "sorted_wrt (<) js" and m: "\<forall>j\<in>set js. i + 1 \<le> j \<and> j < length ts \<and> \<not> Done (ts ! j)"
        using 1(1) [OF True refl d] by blast
      have "started (snd (snd (runLoop env lf n i ts w))) = started w @ js"
        using js True d by (subst runLoop.simps) simp
      moreover have "\<forall>j\<in>set js. i \<le> j \<and> j < length ts \<and> \<not> Done (ts ! j)"
        using m by auto
      ultimately show ?thesis using s by blast
    next
      case nd: False
      let ?w0 = "logPrintf ''Downloading: %05d / %05d (%.2f %%)'' [ANat i, ANat n] w"
      obtain r w2 where rl: "retryLoop env (ts ! i) 1 None ?w0 = (r, w2)"
        by (cases "retryLoop env (ts ! i) 1 None ?w0")
      have "started (snd (retryLoop env (ts ! i) 1 None ?w0)) = started ?w0"
        by (rule retryLoop_started)
      then have s2: "started w2 = started w @ [i]"
        unfolding rl by simp
      show ?thesis
      proof (cases r)
        case (Some e)
        have "runLoop env lf n i ts w = (ts, Some e, logPrintf ''download err = %v'' [AErr e] w2)"
          using runLoop_abort [OF True nd] rl Some by simp
        then have "started (snd (snd (runLoop env lf n i ts w))) = started w @ [i]"
          using s2 by simp
        then show ?thesis using True nd by (intro exI [of _ "[i]"]) simp
      next
        case None
        let ?ts = "ts[i := (ts ! i)\<lparr>Done := True\<rparr>]"
        let ?w3 = "if (i + 1) mod 10 = 0 then snd (saveListFile env ?ts lf w2) else w2"
        obtain js where js: "started (snd (snd (runLoop env lf n (i + 1) ?ts ?w3))) = started ?w3 @ js"
          and s: "sorted_wrt (<) js"
          and m: "\<forall>j\<in>set js. i + 1 \<le> j \<and> j < length ?ts \<and> \<not> Done (?ts ! j)"
          using 1(2) [OF True refl nd rl [symmetric] None refl refl] by blast
        have e: "runLoop env lf n i ts w = runLoop env lf n (Suc i) ?ts ?w3"
          using runLoop_success [OF True nd] rl None by simp
        have s3: "started ?w3 = started w @ [i]"
          using s2 by simp
        have "started (snd (snd (runLoop env lf n i ts w))) = started w @ (i # js)"
          unfolding e using js s3 by simp
        moreover have "sorted_wrt (<) (i # js)"
          using s m by auto
        moreover have "\<forall>j\<in>set (i # js). i \<le> j \<and> j < length ts \<and> \<not> Done (ts ! j)"
          using m True nd by (auto simp: nth_list_update)
        ultimately show ?thesis by blast
      qed
    qed
  qed
qed

text \<open>
  Claim C5. When the tasks before \<open>t\<close> are done and \<open>t\<close> is not, a run logs the total,
  logs one skip line for each task before \<open>t\<close>, and then starts with \<open>t\<close>: the first
  thing it does beyond logging is to open the local file of \<open>t\<close>. The downloads that the
  run starts are at strictly increasing indices of tasks that are not done, the first of
  them the index of \<open>t\<close>.
\<close>

theorem resume_at_first_incomplete:
  assumes pre: "\<forall>t\<in>set pre. Done t" and nd: "\<not> Done t"
    and ts: "ts = pre @ t # post"
  shows "\<exists>rest js.
           trace (snd (snd (runTasks env lf ts w))) =
             trace w @ Log ''Total files: %d'' [ANat (length ts)] #
               map (skipLog (length ts) ts) [0..<length pre] @
               [Log ''Downloading: %05d / %05d (%.2f %%)'' [ANat (length pre), ANat (length ts)],
                OsOpen (SavePath t) (fs w (SavePath t) \<noteq> None)] @ rest \<and>
           started (snd (snd (runTasks env lf ts w))) = started w @ length pre # js \<and>
           sorted_wrt (<) (length pre # js) \<and>
           (\<forall>j\<in>set js. j < length ts \<and> \<not> Done (ts ! j))"
proof -
  let ?n = "length ts"
  let ?w0 = "logPrintf ''Total files: %d'' [ANat ?n] w"
  let ?w1 = "?w0\<lparr>trace := trace ?w0 @ map (skipLog ?n ts) [0..<0 + length pre]\<rparr>"
  let ?w2 = "logPrintf ''Downloading: %05d / %05d (%.2f %%)'' [ANat (length pre), ANat ?n] ?w1"
  let ?r = "runLoop env lf ?n (length pre) ts ?w1"
  have i: "length pre < length ts" and nd': "\<not> Done (ts ! length pre)"
    using nd ts by simp_all
  have "\<forall>j. 0 \<le> j \<and> j < 0 + length pre \<longrightarrow> Done (ts ! j)"
    using pre ts by (auto simp: nth_append)
  then have skip: "runLoop env lf ?n 0 ts ?w0 = ?r"
    using runLoop_skip_many [of 0 "length pre" ts env lf ?n ?w0] ts by simp
  have run: "snd (snd (runTasks env lf ts w)) = snd (saveListFile env (fst ?r) lf (snd (snd ?r)))"
    by (simp add: runTasks_def Let_def skip split: prod.splits)
  obtain evs where d: "trace (snd (downloadDriveFile env (ts ! length pre) ?w2)) =
      trace ?w2 @ OsOpen (SavePath (ts ! length pre)) (fs ?w2 (SavePath (ts ! length pre)) \<noteq> None) # evs"
    using downloadDriveFile_trace [of env "ts ! length pre" ?w2] by blast
  have "prefix (trace (snd (downloadDriveFile env (ts ! length pre) ?w2))) (trace (snd (snd ?r)))"
    by (rule runLoop_first [OF i nd'])
  moreover have "prefix (trace (snd (snd ?r))) (trace (snd (saveListFile env (fst ?r) lf (snd (snd ?r)))))"
    by (rule saveListFile_prefix)
  ultimately have "prefix (trace (snd (downloadDriveFile env (ts ! length pre) ?w2)))
      (trace (snd (snd (runTasks env lf ts w))))"
    unfolding run by (rule prefix_order.trans)
  then obtain rest' where "trace (snd (snd (runTasks env lf ts w))) =
      trace (snd (downloadDriveFile env (ts ! length pre) ?w2)) @ rest'"
    by (auto simp: prefix_def)
  then have tr: "trace (snd (snd (runTasks env lf ts w))) =
      trace w @ Log ''Total files: %d'' [ANat ?n] # map (skipLog ?n ts) [0..<length pre] @
        [Log ''Downloading: %05d / %05d (%.2f %%)'' [ANat (length pre), ANat ?n],
         OsOpen (SavePath t) (fs w (SavePath t) \<noteq> None)] @ (evs @ rest')"
    using d ts by simp
  obtain js where js: "started (snd (snd ?r)) = started ?w1 @ js"
    and s: "sorted_wrt (<) js"
    and m: "\<forall>j\<in>set js. length pre \<le> j \<and> j < length ts \<and> \<not> Done (ts ! j)"
    using runLoop_started [of env lf ?n "length pre" ts ?w1] by blast
  have "concat (map startedIndex (map (skipLog ?n ts) [0..<length pre])) = []"
    by (rule concat_map_Nil) (auto simp: skipLog_def)
  then have s1: "started ?w1 = started w"
    by (simp add: started_def)
  have e: "?r = runLoop env lf ?n (length pre) ts ?w1" ..
  have "\<exists>js'. js = length pre # js'"
  proof -
    obtain js0 where j0: "started (snd (snd ?r)) = started ?w2 @ js0"
    proof -
      have "prefix (trace ?w2) (trace (snd (downloadDriveFile env (ts ! length pre) ?w2)))"
        by (rule downloadDriveFile_prefix)
      moreover have "prefix (trace (snd (downloadDriveFile env (ts ! length pre) ?w2))) (trace (snd (snd ?r)))"
        by (rule runLoop_first [OF i nd'])
      ultimately have "prefix (trace ?w2) (trace (snd (snd ?r)))"
        by (rule prefix_order.trans)
      then obtain evs' where "trace (snd (snd ?r)) = trace ?w2 @ evs'"
        by (auto simp: prefix_def)
      from obs_append(3) [OF this] that show ?thesis by blast
    qed
    have "started ?w2 = started w @ [length pre]"
      using s1 by simp
    with j0 js s1 show ?thesis by auto
  qed
  then obtain js' where js': "js = length pre # js'" by blast
  have "started (snd (snd (runTasks env lf ts w))) = started w @ length pre # js'"
    unfolding run using js js' s1 by simp
  moreover have "\<forall>j\<in>set js'. j < length ts \<and> \<not> Done (ts ! j)"
    using m js' by simp
  ultimately show ?thesis
    using tr s js' by blast
qed

theorem resume_at_first_incomplete_witness:
  "\<exists>rest js.
     trace (snd (snd (runTasks env0 ''list.json'' [taskA, taskB] world0))) =
       [Log ''Total files: %d'' [ANat 2],
        Log ''Skipping: %05d / %05d, file: %s'' [ANat 0, ANat 2, AStr ''out/a''],
        Log ''Downloading: %05d / %05d (%.2f %%)'' [ANat 1, ANat 2],
        OsOpen ''out/b'' False] @ rest \<and>
     started (snd (snd (runTasks env0 ''list.json'' [taskA, taskB] world0))) = 1 # js"
proof -
  have "\<forall>t\<in>set [taskA]. Done t" and "\<not> Done taskB"
    by (simp_all add: taskA_def taskB_def)
  from resume_at_first_incomplete [OF this, of "[taskA, taskB]" "[]" env0 "''list.json''" world0]
  obtain rest js where
    "trace (snd (snd (runTasks env0 ''list.json'' [taskA, taskB] world0))) =
       trace world0 @ Log ''Total files: %d'' [ANat (length [taskA, taskB])] #
         map (skipLog (length [taskA, taskB]) [taskA, taskB]) [0..<length [taskA]] @
         [Log ''Downloading: %05d / %05d (%.2f %%)'' [ANat (length [taskA]), ANat (length [taskA, taskB])],
          OsOpen (SavePath taskB) (fs world0 (SavePath taskB) \<noteq> None)] @ rest"
    and "started (snd (snd (runTasks env0 ''list.json'' [taskA, taskB] world0))) =
       started world0 @ length [taskA] # js"
    by auto
  then show ?thesis
    by (simp add: world0_def skipLog_def taskA_def taskB_def started_def)
qed

subsection \<open>Tasks that need no fetch\<close>

lemma downloadDriveFile_match:
  assumes "Task.Md5Checksum t \<noteq> []" "fst (getFileMd5 env (SavePath t) w) = Task.Md5Checksum t"
  shows "fst (downloadDriveFile env t w) = None"
    and "fetches (snd (downloadDriveFile env t w)) = fetches w"
    and "fs (snd (downloadDriveFile env t w)) = fs w"
  using assms
  by (auto simp: downloadDriveFile_def getFileMd5_def Let_def fetches_def split: option.splits prod.splits)

lemma retryLoop_match:
  assumes "Task.Md5Checksum t \<noteq> []" "fst (getFileMd5 env (SavePath t) w) = Task.Md5Checksum t"
  shows "retryLoop env t 1 err w = (None, snd (downloadDriveFile env t w))"
  using downloadDriveFile_match(1) [OF assms]
  by (subst retryLoop.simps) (auto split: prod.splits option.splits)

lemma saveListFile_fs: "p \<noteq> lf \<Longrightarrow> fs (snd (saveListFile env ts lf w)) p = fs w p"
  by (simp add: saveListFile_def Let_def split: option.splits)

lemma needsNoFetch_fs:
  "needsNoFetch env lf w t \<Longrightarrow> (\<forall>p. p \<noteq> lf \<longrightarrow> fs w' p = fs w p) \<Longrightarrow> needsNoFetch env lf w' t"
  by (auto simp: needsNoFetch_def getFileMd5_def split: option.splits)

lemma runLoop_noFetch:
  "\<forall>j. i \<le> j \<and> j < length ts \<longrightarrow> needsNoFetch env lf w (ts ! j) \<Longrightarrow>
     fst (snd (runLoop env lf n i ts w)) = None \<and>
     fetches (snd (snd (runLoop env lf n i ts w))) = fetches w \<and>
     (\<forall>j. i \<le> j \<and> j < length ts \<longrightarrow> Done (fst (runLoop env lf n i ts w) ! j))"
proof (induction env lf n i ts w rule: runLoop.induct)
  case (1 env lf n i ts w)
  show ?case
  proof (cases "i < length ts")
    case False
    then show ?thesis by (subst (1 2 3) runLoop.simps) auto
  next
    case True
    show ?thesis
    proof (cases "Done (ts ! i)")
      case d: True
      let ?w1 = "logPrintf ''Skipping: %05d / %05d, file: %s'' [ANat i, ANat n, AStr (SavePath (ts ! i))] w"
      have "\<forall>j. i + 1 \<le> j \<and> j < length ts \<longrightarrow> needsNoFetch env lf ?w1 (ts ! j)"
      proof (intro allI impI)
        fix j assume j: "i + 1 \<le> j \<and> j < length ts"
        then have "needsNoFetch env lf w (ts ! j)" using 1(3) by simp
        then show "needsNoFetch env lf ?w1 (ts ! j)"
          by (rule needsNoFetch_fs) simp
      qed
      from 1(1) [OF True refl d this]
      have ih: "fst (snd (runLoop env lf n (i + 1) ts ?w1)) = None"
        "fetches (snd (snd (runLoop env lf n (i + 1) ts ?w1))) = fetches ?w1"
        "\<forall>j. i + 1 \<le> j \<and> j < length ts \<longrightarrow> Done (fst (runLoop env lf n (i + 1) ts ?w1) ! j)"
        by blast+
      have e: "runLoop env lf n i ts w = runLoop env lf n (i + 1) ts ?w1"
        using True d by (subst runLoop.simps) simp
      have "Done (fst (runLoop env lf n (i + 1) ts ?w1) ! i)"
        using runLoop_below [of i "i + 1" ts env lf n ?w1] True d by simp
      then have "\<forall>j. i \<le> j \<and> j < length ts \<longrightarrow> Done (fst (runLoop env lf n (i + 1) ts ?w1) ! j)"
        using ih(3) by (metis Suc_eq_plus1 Suc_leI le_neq_implies_less)
      then show ?thesis unfolding e using ih(1,2) by simp
    next
      case nd: False
      let ?w0 = "logPrintf ''Downloading: %05d / %05d (%.2f %%)'' [ANat i, ANat n] w"
      let ?w2 = "snd (downloadDriveFile env (ts ! i) ?w0)"
      let ?ts = "ts[i := (ts ! i)\<lparr>Done := True\<rparr>]"
      let ?w3 = "if (i + 1) mod 10 = 0 then snd (saveListFile env ?ts lf ?w2) else ?w2"
      have "needsNoFetch env lf w (ts ! i)" using 1(3) True by simp
      then have m: "Task.Md5Checksum (ts ! i) \<noteq> []"
          "fst (getFileMd5 env (SavePath (ts ! i)) ?w0) = Task.Md5Checksum (ts ! i)"
        using nd by (auto simp: needsNoFetch_def getFileMd5_def split: option.splits)
      have rl: "retryLoop env (ts ! i) 1 None ?w0 = (None, ?w2)"
        by (rule retryLoop_match [OF m])
      have f2: "fetches ?w2 = fetches w" and fs2: "fs ?w2 = fs w"
        using downloadDriveFile_match(2,3) [OF m] by simp_all
      have fs3: "\<forall>p. p \<noteq> lf \<longrightarrow> fs ?w3 p = fs w p"
        using fs2 by (simp add: saveListFile_fs)
      have f3: "fetches ?w3 = fetches w"
        using f2 by simp
      have "\<forall>j. i + 1 \<le> j \<and> j < length ?ts \<longrightarrow> needsNoFetch env lf ?w3 (?ts ! j)"
      proof (intro allI impI)
        fix j assume j: "i + 1 \<le> j \<and> j < length ?ts"
        then have "needsNoFetch env lf w (ts ! j)" using 1(3) by simp
        then have "needsNoFetch env lf ?w3 (ts ! j)"
          using fs3 by (rule needsNoFetch_fs)
        then show "needsNoFetch env lf ?w3 (?ts ! j)" using j by simp
      qed
      from 1(2) [OF True refl nd rl [symmetric] refl refl refl this]
      have ih: "fst (snd (runLoop env lf n (i + 1) ?ts ?w3)) = None"
        "fetches (snd (snd (runLoop env lf n (i + 1) ?ts ?w3))) = fetches ?w3"
        "\<forall>j. i + 1 \<le> j \<and> j < length ?ts \<longrightarrow> Done (fst (runLoop env lf n (i + 1) ?ts ?w3) ! j)"
        by blast+
      have e: "runLoop env lf n i ts w = runLoop env lf n (i + 1) ?ts ?w3"
        using runLoop_success [OF True nd rl] by simp
      have "Done (fst (runLoop env lf n (i + 1) ?ts ?w3) ! i)"
        using runLoop_below [of i "i + 1" ?ts env lf n ?w3] True by simp
      then have "\<forall>j. i \<le> j \<and> j < length ts \<longrightarrow> Done (fst (runLoop env lf n (i + 1) ?ts ?w3) ! j)"
        using ih(3) by (metis Suc_eq_plus1 Suc_leI le_neq_implies_less length_list_update)
      then show ?thesis unfolding e using ih(1,2) f3 by simp
    qed
  qed
qed

lemma runLoop_no_error_all_done:
  "fst (snd (runLoop env lf n i ts w)) = None \<Longrightarrow>
     \<forall>j. i \<le> j \<and> j < length ts \<longrightarrow> Done (fst (runLoop env lf n i ts w) ! j)"
proof (induction env lf n i ts w rule: runLoop.induct)
  case (1 env lf n i ts w)
  show ?case
  proof (cases "i < length ts")
    case False
    then show ?thesis by auto
  next
    case True
    show ?thesis
    proof (cases "Done (ts ! i)")
      case d: True
      let ?w1 = "logPrintf ''Skipping: %05d / %05d, file: %s'' [ANat i, ANat n, AStr (SavePath (ts ! i))] w"
      have e: "runLoop env lf n i ts w = runLoop env lf n (i + 1) ts ?w1"
        using True d by (subst runLoop.simps) simp
      have ih: "\<forall>j. i + 1 \<le> j \<and> j < length ts \<longrightarrow> Done (fst (runLoop env lf n (i + 1) ts ?w1) ! j)"
        using 1(1) [OF True refl d] 1(3) unfolding e by simp
      have "Done (fst (runLoop env lf n (i + 1) ts ?w1) ! i)"
        using runLoop_below [of i "i + 1" ts env lf n ?w1] True d by simp
      then show ?thesis unfolding e using ih
        by (metis Suc_eq_plus1 Suc_leI le_neq_implies_less)
    next
      case nd: False
      let ?w0 = "logPrintf ''Downloading: %05d / %05d (%.2f %%)'' [ANat i, ANat n] w"
      obtain r w2 where rl: "retryLoop env (ts ! i) 1 None ?w0 = (r, w2)"
        by (cases "retryLoop env (ts ! i) 1 None ?w0")
      show ?thesis
      proof (cases r)
        case (Some e)
        then show ?thesis using runLoop_abort [OF True nd] rl 1(3) by simp
      next
        case None
        let ?ts = "ts[i := (ts ! i)\<lparr>Done := True\<rparr>]"
        let ?w3 = "if (i + 1) mod 10 = 0 then snd (saveListFile env ?ts lf w2) else w2"
        have e: "runLoop env lf n i ts w = runLoop env lf n (i + 1) ?ts ?w3"
          using runLoop_success [OF True nd] rl None by simp
        have ih: "\<forall>j. i + 1 \<le> j \<and> j < length ?ts \<longrightarrow> Done (fst (runLoop env lf n (i + 1) ?ts ?w3) ! j)"
          using 1(2) [OF True refl nd rl [symmetric] None refl refl] 1(3) unfolding e by simp
        have "Done (fst (runLoop env lf n (i + 1) ?ts ?w3) ! i)"
          using runLoop_below [of i "i + 1" ?ts env lf n ?w3] True by simp
        then show ?thesis unfolding e using ih
          by (metis Suc_eq_plus1 Suc_leI le_neq_implies_less length_list_update)
      qed
    qed
  qed
qed

text \<open>
  Claim C4. The list that a run without error returns has every task done. A run on a
  list in which every task is done, or has at its path a local file with the non-empty
  fingerprint that the task expects, requests no content from the service, ends without
  error and leaves every task done. So a second run on the list of a first successful
  run fetches nothing, whatever the service and the disk are then.
\<close>

theorem second_run_fetches_nothing:
  "(runTasks env1 lf1 ts1 w1 = (ts, None, w1') \<longrightarrow>
      (\<forall>t\<in>set ts. Done t) \<and>
      fetches (snd (snd (runTasks env lf ts w))) = fetches w \<and>
      fst (runTasks env lf ts w) = ts) \<and>
   ((\<forall>t\<in>set ts. needsNoFetch env lf w t) \<longrightarrow>
      fetches (snd (snd (runTasks env lf ts w))) = fetches w \<and>
      fst (snd (runTasks env lf ts w)) = None \<and>
      (\<forall>t\<in>set (fst (runTasks env lf ts w)). Done t))"
proof -
  let ?w0 = "logPrintf ''Total files: %d'' [ANat (length ts)] w"
  let ?r = "runLoop env lf (length ts) 0 ts ?w0"
  have run: "runTasks env lf ts w = (fst ?r, fst (snd ?r), snd (saveListFile env (fst ?r) lf (snd (snd ?r))))"
    by (simp add: runTasks_def Let_def split: prod.splits)
  have general: "fetches (snd (snd (runTasks env lf ts w))) = fetches w \<and>
      fst (snd (runTasks env lf ts w)) = None \<and>
      (\<forall>t\<in>set (fst (runTasks env lf ts w)). Done t)"
    if n: "\<forall>t\<in>set ts. needsNoFetch env lf w t"
  proof -
    have "\<forall>j. 0 \<le> j \<and> j < length ts \<longrightarrow> needsNoFetch env lf ?w0 (ts ! j)"
    proof (intro allI impI)
      fix j assume "0 \<le> j \<and> j < length ts"
      then have "needsNoFetch env lf w (ts ! j)" using n by simp
      then show "needsNoFetch env lf ?w0 (ts ! j)"
        by (rule needsNoFetch_fs) simp
    qed
    from runLoop_noFetch [OF this, of "length ts"]
    have a: "fst (snd ?r) = None" "fetches (snd (snd ?r)) = fetches ?w0"
      "\<forall>j. 0 \<le> j \<and> j < length ts \<longrightarrow> Done (fst ?r ! j)"
      by blast+
    have "\<forall>t\<in>set (fst ?r). Done t"
      using a(3) by (auto simp: in_set_conv_nth)
    then show ?thesis
      unfolding run using a(1,2) by simp
  qed
  have first: "(\<forall>t\<in>set ts. Done t) \<and>
      fetches (snd (snd (runTasks env lf ts w))) = fetches w \<and>
      fst (runTasks env lf ts w) = ts"
    if f: "runTasks env1 lf1 ts1 w1 = (ts, None, w1')"
  proof -
    let ?v0 = "logPrintf ''Total files: %d'' [ANat (length ts1)] w1"
    let ?q = "runLoop env1 lf1 (length ts1) 0 ts1 ?v0"
    have q: "fst ?q = ts" "fst (snd ?q) = None"
      using f by (simp_all add: runTasks_def Let_def split: prod.splits)
    have "\<forall>j. 0 \<le> j \<and> j < length ts1 \<longrightarrow> Done (fst ?q ! j)"
      by (rule runLoop_no_error_all_done [OF q(2)])
    moreover have "length ts = length ts1"
      using q(1) runLoop_length [of env1 lf1 "length ts1" 0 ts1 ?v0] by simp
    ultimately have d: "\<forall>t\<in>set ts. Done t"
      using q(1) by (auto simp: in_set_conv_nth)
    then have "\<forall>t\<in>set ts. needsNoFetch env lf w t"
      by (simp add: needsNoFetch_def)
    from general [OF this] have g: "fetches (snd (snd (runTasks env lf ts w))) = fetches w" by simp
    have "fst ?r = ts"
    proof (rule nth_equalityI)
      show "length (fst ?r) = length ts" by simp
      fix j assume "j < length (fst ?r)"
      then have j: "j < length ts" by simp
      then have "Done (ts ! j)" using d by simp
      then have "Done (fst ?r ! j)" using runLoop_frame [OF j, of env lf "length ts" 0 ?w0] by simp
      then show "fst ?r ! j = ts ! j"
        using runLoop_frame [OF j, of env lf "length ts" 0 ?w0] \<open>Done (ts ! j)\<close>
        by (intro Task.equality) simp_all
    qed
    then show ?thesis using d g unfolding run by simp
  qed
  show ?thesis using general first by blast
qed

lemma first_run_ok:
  "runTasks env0 ''list.json'' [taskA, taskB] world0 =
     (fst (runTasks env0 ''list.json'' [taskA, taskB] world0), None,
      snd (snd (runTasks env0 ''list.json'' [taskA, taskB] world0)))"
proof -
  have "fst (snd (runTasks env0 ''list.json'' [taskA, taskB] world0)) = None"
    by code_simp
  then show ?thesis
    by (metis prod.collapse)
qed

lemma local_copy_matches: "\<forall>t\<in>set [taskA, taskB]. needsNoFetch env0 ''list.json'' world1 t"
  by (simp add: needsNoFetch_def taskA_def taskB_def getFileMd5_def world1_def env0_def)

theorem second_run_fetches_nothing_witness:
  "fetches (snd (snd (runTasks env_down ''list.json''
      (fst (runTasks env0 ''list.json'' [taskA, taskB] world0)) world0))) = [] \<and>
   fetches (snd (snd (runTasks env0 ''list.json'' [taskA, taskB] world1))) = [] \<and>
   fst (snd (runTasks env0 ''list.json'' [taskA, taskB] world1)) = None"
proof -
  have z: "fetches world0 = []" "fetches world1 = []"
    by (simp_all add: fetches_def world0_def world1_def)
  note a = second_run_fetches_nothing [THEN conjunct1, THEN mp, OF first_run_ok,
      of env_down "''list.json''" world0]
  note b = second_run_fetches_nothing [THEN conjunct2, THEN mp, OF local_copy_matches]
  show ?thesis
    using a [THEN conjunct2, THEN conjunct1] b [THEN conjunct1] b [THEN conjunct2, THEN conjunct1] z
    by simp
qed

subsection \<open>Checkpoints\<close>



lemma loggedErrors_append:
  "trace w' = trace w @ evs \<Longrightarrow>
     loggedErrors w' = loggedErrors w @
       concat (map (\<lambda>ev. case ev of
                          Log format args \<Rightarrow> concat (map (\<lambda>a. case a of AErr e \<Rightarrow> [e] | _ \<Rightarrow> []) args)
                        | _ \<Rightarrow> []) evs)"
  by (simp add: loggedErrors_def)

lemma loggedErrors_simps [simp]:
  "loggedErrors (emit ev w) = loggedErrors w @
     (case ev of Log format args \<Rightarrow> concat (map (\<lambda>a. case a of AErr e \<Rightarrow> [e] | _ \<Rightarrow> []) args) | _ \<Rightarrow> [])"
  "loggedErrors (logPrintf f as w) = loggedErrors w @ concat (map (\<lambda>a. case a of AErr e \<Rightarrow> [e] | _ \<Rightarrow> []) as)"
  "loggedErrors (writeFile p c w) = loggedErrors w"
  "loggedErrors (backoff k e w) = loggedErrors w @ [e]"
  by (simp_all add: loggedErrors_def)

lemma saveListFile_loggedErrors [simp]:
  "loggedErrors (snd (saveListFile env ts lf w)) = loggedErrors w"
  by (simp add: saveListFile_def Let_def split: option.splits)



lemma downloadDriveFile_Done [simp]:
  "downloadDriveFile env (t\<lparr>Done := b\<rparr>) w = downloadDriveFile env t w"
  by (simp add: downloadDriveFile_def Let_def cong: prod.case_cong sum.case_cong option.case_cong if_cong)











section \<open>The tree walker: lemmas\<close>

subsection \<open>The walk on a served tree\<close>









subsection \<open>The breadth-first list holds the files of the tree\<close>











subsection \<open>A joined path does not begin with a dot element\<close>











subsection \<open>The listing loop\<close>

lemma listPages_fails:
  "Files_List env (logPrintf ''[%03d] listing folder: %s'' [ANat i, AStr fid] w) fid tok = Inl e \<Longrightarrow>
     listPages env fid h i tok s w =
       Some (Some (Errorf ''Unable to list files, err = %w'' [] e), s,
             emit (CallList fid tok False) (logPrintf ''[%03d] listing folder: %s'' [ANat i, AStr fid] w))"
  by (subst listPages.simps) (simp add: Let_def)

lemma listPages_empty_page:
  "Files_List env (logPrintf ''[%03d] listing folder: %s'' [ANat i, AStr fid] w) fid tok = Inr resp \<Longrightarrow>
   Files resp = [] \<Longrightarrow>
     listPages env fid h i tok s w =
       Some (None, s,
             logPrintf ''No files found in folder: %s'' [AStr fid]
               (emit (CallList fid tok True)
                  (logPrintf ''[%03d] listing folder: %s'' [ANat i, AStr fid] w)))"
  by (subst listPages.simps) (simp add: Let_def)

lemma listPages_last_page:
  "Files_List env (logPrintf ''[%03d] listing folder: %s'' [ANat i, AStr fid] w) fid tok = Inr resp \<Longrightarrow>
   Files resp \<noteq> [] \<Longrightarrow> handleEntries h (Files resp) s = (None, s') \<Longrightarrow> NextPageToken resp = [] \<Longrightarrow>
     listPages env fid h i tok s w =
       Some (None, s',
             logPrintf ''[%03d] finished'' [ANat i]
               (emit (CallList fid tok True)
                  (logPrintf ''[%03d] listing folder: %s'' [ANat i, AStr fid] w)))"
  by (subst listPages.simps) (simp add: Let_def)

lemma listPages_next_page:
  "Files_List env (logPrintf ''[%03d] listing folder: %s'' [ANat i, AStr fid] w) fid tok = Inr resp \<Longrightarrow>
   Files resp \<noteq> [] \<Longrightarrow> handleEntries h (Files resp) s = (None, s') \<Longrightarrow> NextPageToken resp \<noteq> [] \<Longrightarrow>
     listPages env fid h i tok s w =
       listPages env fid h (i + 1) (NextPageToken resp) s'
         (logPrintf ''[%03d] nextPageToken = %s'' [ANat i, AStr (NextPageToken resp)]
            (emit (CallList fid tok True)
               (logPrintf ''[%03d] listing folder: %s'' [ANat i, AStr fid] w)))"
  by (subst listPages.simps) (simp add: Let_def)

lemma listCalls_simps [simp]:
  "listCalls (emit ev w) = listCalls w @ (case ev of CallList f t ok \<Rightarrow> [(f, t)] | _ \<Rightarrow> [])"
  "listCalls (logPrintf f as w) = listCalls w"
  by (simp_all add: listCalls_def)

lemma listFailures_simps [simp]:
  "listFailures (emit ev w) = listFailures w + (case ev of CallList f t ok \<Rightarrow> if ok then 0 else 1 | _ \<Rightarrow> 0)"
  "listFailures (logPrintf f as w) = listFailures w"
  by (simp_all add: listFailures_def split: event.splits)

lemma handleEntries_never_fails:
  "\<forall>entry s. fst (h entry s) = None \<Longrightarrow> fst (handleEntries h entries s) = None"
proof (induction entries arbitrary: s)
  case Nil
  show ?case by simp
next
  case (Cons entry entries)
  have "fst (h entry s) = None" using Cons.prems by blast
  then obtain s1 where "h entry s = (None, s1)"
    by (cases "h entry s") auto
  then show ?case using Cons.IH [OF Cons.prems] by simp
qed

lemma listPages_requests:
  "pagesServed env fid tok pages \<Longrightarrow> \<forall>entry s. fst (h entry s) = None \<Longrightarrow>
     \<exists>s' w'. listPages env fid h i tok s w = Some (None, s', w') \<and>
        listCalls w' = listCalls w @ map (Pair fid) (tok # filter (\<lambda>t. t \<noteq> []) (map snd pages))"
proof (induction pages arbitrary: tok i s w)
  case Nil
  let ?w1 = "logPrintf ''[%03d] listing folder: %s'' [ANat i, AStr fid] w"
  have "case Files_List env ?w1 fid tok of Inl err \<Rightarrow> False | Inr resp \<Rightarrow> Files resp = []"
    using Nil by simp
  then obtain resp where "Files_List env ?w1 fid tok = Inr resp" "Files resp = []"
    by (cases "Files_List env ?w1 fid tok") auto
  then show ?case
    by (simp add: listPages_empty_page)
next
  case (Cons page pages)
  obtain entries nxt where page: "page = (entries, nxt)" by (cases page)
  let ?w1 = "logPrintf ''[%03d] listing folder: %s'' [ANat i, AStr fid] w"
  let ?resp = "\<lparr>Files = entries, NextPageToken = nxt\<rparr>"
  have ne: "Files ?resp \<noteq> []"
    and l: "Files_List env ?w1 fid tok = Inr ?resp"
    and rest: "if nxt = [] then pages = [] else pagesServed env fid nxt pages"
    using Cons.prems(1) page by auto
  obtain s1 where h: "handleEntries h (Files ?resp) s = (None, s1)"
    using handleEntries_never_fails [OF Cons.prems(2), of entries s]
    by (cases "handleEntries h entries s") auto
  show ?case
  proof (cases "nxt = []")
    case True
    then have "pages = []" using rest by simp
    then show ?thesis
      using listPages_last_page [OF l ne h] True page by simp
  next
    case False
    let ?w3 = "logPrintf ''[%03d] nextPageToken = %s'' [ANat i, AStr nxt] (emit (CallList fid tok True) ?w1)"
    from False rest have "pagesServed env fid nxt pages" by simp
    from Cons.IH [OF this Cons.prems(2), of "i + 1" s1 ?w3]
    obtain s' w' where "listPages env fid h (i + 1) nxt s1 ?w3 = Some (None, s', w')"
      and "listCalls w' = listCalls ?w3 @ map (Pair fid) (nxt # filter (\<lambda>t. t \<noteq> []) (map snd pages))"
      by blast
    then show ?thesis
      using listPages_next_page [OF l ne h] False page by simp
  qed
qed

lemma walkLoop_empty_folder:
  assumes "Files_Get env w (FileId task) = Inr f" and "isDriveFolder f"
    and "wl = logPrintf ''[%03d] listing folder: %s'' [ANat 0, AStr (Id f)]
           (logPrintf ''>> list folder: %s [%s]'' [AStr (Id f), AStr (Name f)]
              (emit (CallGet (FileId task) True) w))"
    and "Files_List env wl (Id f) [] = Inr resp" and "Files resp = []"
  shows "walkLoop env (task # rest) fileTasks w =
           walkLoop env rest fileTasks
             (logPrintf ''No files found in folder: %s'' [AStr (Id f)] (emit (CallList (Id f) [] True) wl))"
proof -
  have "listDriveFolder env (Id f) (walkHandler task) (rest, fileTasks)
      (logPrintf ''>> list folder: %s [%s]'' [AStr (Id f), AStr (Name f)]
         (emit (CallGet (FileId task) True) w)) =
      Some (None, (rest, fileTasks),
        logPrintf ''No files found in folder: %s'' [AStr (Id f)] (emit (CallList (Id f) [] True) wl))"
    unfolding listDriveFolder_def
    using listPages_empty_page [OF assms(4) [unfolded assms(3)] assms(5)] assms(3) by simp
  then show ?thesis
    using assms(1,2) by (subst walkLoop.simps) (simp add: Let_def)
qed

text \<open>
  Claim C8, as amended. The listing loop asks for the next page while the page it got has
  entries and a continuation token that is not empty; it ends, without error, at a page
  with the empty token and at the first page without entries, whatever the token of that
  page. So when the service lists a folder in pages that have entries up to the empty
  token, the loop requests exactly these pages; and for a folder whose first page has no
  entries the loop ends there, logs that no files were found, and the walk goes on with
  the next task of the queue.
\<close>

theorem listing_loop_ends:
  assumes w1: "w1 = logPrintf ''[%03d] listing folder: %s'' [ANat i, AStr fid] w"
    and wl: "wl = logPrintf ''[%03d] listing folder: %s'' [ANat 0, AStr (Id f)]
           (logPrintf ''>> list folder: %s [%s]'' [AStr (Id f), AStr (Name f)]
              (emit (CallGet (FileId task) True) w))"
  shows "(Files_List env w1 fid tok = Inr resp \<longrightarrow>
            (Files resp = [] \<longrightarrow>
               listPages env fid h i tok s w =
                 Some (None, s, logPrintf ''No files found in folder: %s'' [AStr fid]
                                  (emit (CallList fid tok True) w1))) \<and>
            (Files resp \<noteq> [] \<and> handleEntries h (Files resp) s = (None, s') \<longrightarrow>
               (NextPageToken resp = [] \<longrightarrow>
                  listPages env fid h i tok s w =
                    Some (None, s', logPrintf ''[%03d] finished'' [ANat i] (emit (CallList fid tok True) w1))) \<and>
               (NextPageToken resp \<noteq> [] \<longrightarrow>
                  listPages env fid h i tok s w =
                    listPages env fid h (i + 1) (NextPageToken resp) s'
                      (logPrintf ''[%03d] nextPageToken = %s'' [ANat i, AStr (NextPageToken resp)]
                         (emit (CallList fid tok True) w1))))) \<and>
         (pagesServed env fid [] pages \<and> (\<forall>entry s. fst (h entry s) = None) \<longrightarrow>
            (\<exists>s' w'. listDriveFolder env fid h s w = Some (None, s', w') \<and>
               listCalls w' = listCalls w @ map (Pair fid) ([] # filter (\<lambda>t. t \<noteq> []) (map snd pages)))) \<and>
         (Files_Get env w (FileId task) = Inr f \<and> isDriveFolder f \<and>
          Files_List env wl (Id f) [] = Inr resp0 \<and> Files resp0 = [] \<longrightarrow>
            walkLoop env (task # rest) fileTasks w =
              walkLoop env rest fileTasks
                (logPrintf ''No files found in folder: %s'' [AStr (Id f)]
                   (emit (CallList (Id f) [] True) wl)))"
proof (intro conjI impI)
  assume l: "Files_List env w1 fid tok = Inr resp"
  {
    assume "Files resp = []"
    then show "listPages env fid h i tok s w =
        Some (None, s, logPrintf ''No files found in folder: %s'' [AStr fid] (emit (CallList fid tok True) w1))"
      using listPages_empty_page [OF l [unfolded w1]] w1 by simp
  }
  {
    assume a: "Files resp \<noteq> [] \<and> handleEntries h (Files resp) s = (None, s')"
    then have ne: "Files resp \<noteq> []" and he: "handleEntries h (Files resp) s = (None, s')"
      by simp_all
    {
      assume "NextPageToken resp = []"
      then show "listPages env fid h i tok s w =
          Some (None, s', logPrintf ''[%03d] finished'' [ANat i] (emit (CallList fid tok True) w1))"
        using listPages_last_page [OF l [unfolded w1] ne he] w1 by simp
    }
    {
      assume "NextPageToken resp \<noteq> []"
      then show "listPages env fid h i tok s w =
          listPages env fid h (i + 1) (NextPageToken resp) s'
            (logPrintf ''[%03d] nextPageToken = %s'' [ANat i, AStr (NextPageToken resp)]
               (emit (CallList fid tok True) w1))"
        using listPages_next_page [OF l [unfolded w1] ne he] w1 by simp
    }
  }
next
  assume "pagesServed env fid [] pages \<and> (\<forall>entry s. fst (h entry s) = None)"
  then show "\<exists>s' w'. listDriveFolder env fid h s w = Some (None, s', w') \<and>
      listCalls w' = listCalls w @ map (Pair fid) ([] # filter (\<lambda>t. t \<noteq> []) (map snd pages))"
    unfolding listDriveFolder_def using listPages_requests [of env fid "[]" pages h 0 s w] by blast
next
  assume "Files_Get env w (FileId task) = Inr f \<and> isDriveFolder f \<and>
      Files_List env wl (Id f) [] = Inr resp0 \<and> Files resp0 = []"
  then show "walkLoop env (task # rest) fileTasks w =
      walkLoop env rest fileTasks
        (logPrintf ''No files found in folder: %s'' [AStr (Id f)] (emit (CallList (Id f) [] True) wl))"
    using walkLoop_empty_folder [OF _ _ wl] by blast
qed

text \<open>
  Claim C8 as stated fails: the service answers the first list request for the folder
  \<open>G\<close> with no entries and the continuation token \<open>t2\<close>, and the loop ends there without
  error, after this one request and without a call of the handler.
\<close>

theorem listing_loop_counterexample:
  "Files_List env_gap world0 ''G'' [] = Inr \<lparr>Files = [], NextPageToken = ''t2''\<rparr> \<and>
   map_option (\<lambda>(err, s, w). (err, s, listCalls w))
     (listDriveFolder env_gap ''G'' (walkHandler rootG) ([], []) world0) =
     Some (None, ([], []), [(''G'', [])])"
  by code_simp

lemma walkHandler_never_fails: "\<forall>entry s. fst (walkHandler task entry s) = None"
  by (auto simp: walkHandler_def Let_def split: prod.splits)

lemma rootR_pages:
  "pagesServed env_tree1 ''R'' []
     [([meta (plainFile ''1'' ''a.txt''), folderMeta ''D'' ''docs''], ''t2''),
      ([folderMeta ''E'' ''empty'', meta (plainFile ''2'' ''b.txt'')], [])]"
  by (simp add: env_tree1_def env0_def)

theorem listing_loop_ends_witness:
  "(\<exists>s' w'. listDriveFolder env_tree1 ''R'' (walkHandler rootR) ([], []) world0 = Some (None, s', w') \<and>
      listCalls w' = [(''R'', []), (''R'', ''t2'')]) \<and>
   walkLoop env_tree1 [taskE] [] world0 =
     walkLoop env_tree1 [] []
       (logPrintf ''No files found in folder: %s'' [AStr ''E'']
          (emit (CallList ''E'' [] True)
             (logPrintf ''[%03d] listing folder: %s'' [ANat 0, AStr ''E'']
                (logPrintf ''>> list folder: %s [%s]'' [AStr ''E'', AStr ''empty'']
                   (emit (CallGet ''E'' True) world0)))))"
proof -
  let ?wl = "logPrintf ''[%03d] listing folder: %s'' [ANat 0, AStr (Id (folderMeta ''E'' ''empty''))]
      (logPrintf ''>> list folder: %s [%s]''
         [AStr (Id (folderMeta ''E'' ''empty'')), AStr (Name (folderMeta ''E'' ''empty''))]
         (emit (CallGet (FileId taskE) True) world0))"
  have z: "listCalls world0 = []"
    by (simp add: listCalls_def world0_def)
  have "pagesServed env_tree1 ''R'' []
      [([meta (plainFile ''1'' ''a.txt''), folderMeta ''D'' ''docs''], ''t2''),
       ([folderMeta ''E'' ''empty'', meta (plainFile ''2'' ''b.txt'')], [])] \<and>
      (\<forall>entry s. fst (walkHandler rootR entry s) = None)"
    using rootR_pages walkHandler_never_fails by blast
  from listing_loop_ends [OF refl refl, THEN conjunct2, THEN conjunct1, THEN mp, OF this,
      of "([], [])" world0]
  have a: "\<exists>s' w'. listDriveFolder env_tree1 ''R'' (walkHandler rootR) ([], []) world0 = Some (None, s', w') \<and>
      listCalls w' = [(''R'', []), (''R'', ''t2'')]"
    by (simp add: z)
  have "Files_Get env_tree1 world0 (FileId taskE) = Inr (folderMeta ''E'' ''empty'') \<and>
      isDriveFolder (folderMeta ''E'' ''empty'') \<and>
      Files_List env_tree1 ?wl (Id (folderMeta ''E'' ''empty'')) [] = Inr \<lparr>Files = [], NextPageToken = []\<rparr> \<and>
      Files \<lparr>Files = [], NextPageToken = []\<rparr> = []"
    by (simp add: env_tree1_def env0_def taskE_def folderMeta_def isDriveFolder_def)
  from listing_loop_ends [OF refl refl, THEN conjunct2, THEN conjunct2, THEN mp, OF this, of "[]" "[]"]
  have b: "walkLoop env_tree1 [taskE] [] world0 =
     walkLoop env_tree1 [] []
       (logPrintf ''No files found in folder: %s'' [AStr ''E'']
          (emit (CallList ''E'' [] True)
             (logPrintf ''[%03d] listing folder: %s'' [ANat 0, AStr ''E'']
                (logPrintf ''>> list folder: %s [%s]'' [AStr ''E'', AStr ''empty'']
                   (emit (CallGet ''E'' True) world0)))))"
    by (simp add: folderMeta_def taskE_def)
  show ?thesis using a b by blast
qed

subsection \<open>A listing that fails\<close>

lemma listPages_failures:
  assumes "listPages env fid h i tok s w = Some y"
  shows "listFailures w \<le> listFailures (snd (snd y)) \<and>
         (listFailures w < listFailures (snd (snd y)) \<longrightarrow> fst y \<noteq> None)"
  using assms
proof (induction rule: listPages.raw_induct [rotated 1, consumes 1])
  case (1 listPages env fid h i tok s w y)
  let ?w1 = "logPrintf ''[%03d] listing folder: %s'' [ANat i, AStr fid] w"
  show ?case
  proof (cases "Files_List env ?w1 fid tok")
    case (Inl e)
    then show ?thesis using 1(2) by (auto simp: Let_def)
  next
    case (Inr resp)
    let ?w2 = "emit (CallList fid tok True) ?w1"
    show ?thesis
    proof (cases "Files resp = []")
      case True
      then show ?thesis using 1(2) Inr by (auto simp: Let_def)
    next
      case False
      obtain r s1 where he: "handleEntries h (Files resp) s = (r, s1)"
        by (cases "handleEntries h (Files resp) s")
      show ?thesis
      proof (cases r)
        case (Some e)
        then show ?thesis using 1(2) Inr False he by (auto simp: Let_def)
      next
        case None
        show ?thesis
        proof (cases "NextPageToken resp = []")
          case True
          then show ?thesis using 1(2) Inr False he None by (auto simp: Let_def)
        next
          case nt: False
          let ?w3 = "logPrintf ''[%03d] nextPageToken = %s'' [ANat i, AStr (NextPageToken resp)] ?w2"
          have "listPages env fid h (i + 1) (NextPageToken resp) s1 ?w3 = Some y"
            using 1(2) Inr False he None nt by (simp add: Let_def)
          from 1(1) [OF this] show ?thesis by simp
        qed
      qed
    qed
  qed
qed

lemma walkLoop_failures:
  assumes "walkLoop env q ft w = Some y"
  shows "(snd (fst y) \<noteq> None \<longrightarrow> fst (fst y) = []) \<and>
         listFailures w \<le> listFailures (snd y) \<and>
         (listFailures w < listFailures (snd y) \<longrightarrow> snd (fst y) \<noteq> None)"
  using assms
proof (induction rule: walkLoop.raw_induct [rotated 1, consumes 1])
  case (1 walkLoop env q ft w y)
  show ?case
  proof (cases q)
    case Nil
    then show ?thesis using 1(2) by auto
  next
    case (Cons task rest)
    show ?thesis
    proof (cases "Files_Get env w (FileId task)")
      case (Inl e)
      then show ?thesis using 1(2) Cons by auto
    next
      case (Inr f)
      let ?w1 = "emit (CallGet (FileId task) True) w"
      show ?thesis
      proof (cases "isDriveFolder f")
        case False
        let ?ft = "ft @ [\<lparr>FileId = Id f, SavePath = filepath_Join (SavePath task) (Name f),
            Md5Checksum = DriveFile.Md5Checksum f, Done = False\<rparr>]"
        have "walkLoop env rest ?ft ?w1 = Some y"
          using 1(2) Cons Inr False by (simp add: Let_def)
        from 1(1) [OF this] show ?thesis by simp
      next
        case True
        let ?w2 = "logPrintf ''>> list folder: %s [%s]'' [AStr (Id f), AStr (Name f)] ?w1"
        from 1(2) Cons Inr True obtain r where
          l: "listDriveFolder env (Id f) (walkHandler task) (rest, ft) ?w2 = Some r"
          and c: "(case r of
              (Some err, s', w3) \<Rightarrow>
                Some (([], Some (Errorf ''list drive folder: %s [%s], err = %w'' [Id f, Name f] err)), w3)
            | (None, (taskQueue', fileTasks'), w3) \<Rightarrow> walkLoop env taskQueue' fileTasks' w3) = Some y"
          by (auto simp: Let_def bind_eq_Some_conv)
        obtain e q' ft' w3 where r: "r = (e, (q', ft'), w3)"
          by (cases r) auto
        have lf: "listFailures ?w2 \<le> listFailures w3 \<and> (listFailures ?w2 < listFailures w3 \<longrightarrow> e \<noteq> None)"
          using listPages_failures [OF l [unfolded listDriveFolder_def]] r by simp
        show ?thesis
        proof (cases e)
          case (Some err)
          then show ?thesis using c r lf by auto
        next
          case None
          then have "walkLoop env q' ft' w3 = Some y" using c r by simp
          from 1(1) [OF this] show ?thesis using lf None by auto
        qed
      qed
    qed
  qed
qed

text \<open>
  Claim C7. A list request that fails ends the listing of the folder with an error at
  once, and a listing that ends with an error ends the walk at once: the walk returns
  \<open>nil\<close> for the list, and the error. Every walk that returns an error returns the empty
  list with it, and every walk in which a list request failed returns an error.
\<close>

theorem listing_failure_aborts_walk:
  assumes w1: "w1 = logPrintf ''[%03d] listing folder: %s'' [ANat i, AStr fid] w"
    and w2: "w2 = logPrintf ''>> list folder: %s [%s]'' [AStr (Id f), AStr (Name f)]
              (emit (CallGet (FileId task) True) w)"
  shows "(Files_List env w1 fid tok = Inl e \<longrightarrow>
            listPages env fid h i tok s w =
              Some (Some (Errorf ''Unable to list files, err = %w'' [] e), s,
                    emit (CallList fid tok False) w1)) \<and>
         (Files_Get env w (FileId task) = Inr f \<and> isDriveFolder f \<and>
          listDriveFolder env (Id f) (walkHandler task) (rest, fileTasks) w2 = Some (Some e', s', w3) \<longrightarrow>
            walkLoop env (task # rest) fileTasks w =
              Some (([], Some (Errorf ''list drive folder: %s [%s], err = %w'' [Id f, Name f] e')), w3)) \<and>
         (listDriveFolderFiles env root w = Some ((ts, err), w') \<longrightarrow>
            (err \<noteq> None \<longrightarrow> ts = []) \<and>
            (listFailures w < listFailures w' \<longrightarrow> err \<noteq> None \<and> ts = []))"
proof (intro conjI impI)
  assume "Files_List env w1 fid tok = Inl e"
  then show "listPages env fid h i tok s w =
      Some (Some (Errorf ''Unable to list files, err = %w'' [] e), s, emit (CallList fid tok False) w1)"
    using listPages_fails [of env i fid w tok e h s] w1 by simp
next
  assume "Files_Get env w (FileId task) = Inr f \<and> isDriveFolder f \<and>
      listDriveFolder env (Id f) (walkHandler task) (rest, fileTasks) w2 = Some (Some e', s', w3)"
  then show "walkLoop env (task # rest) fileTasks w =
      Some (([], Some (Errorf ''list drive folder: %s [%s], err = %w'' [Id f, Name f] e')), w3)"
    using w2 by (subst walkLoop.simps) (simp add: Let_def)
next
  assume r: "listDriveFolderFiles env root w = Some ((ts, err), w')"
  note f = walkLoop_failures [OF r [unfolded listDriveFolderFiles_def]]
  {
    assume "err \<noteq> None"
    then show "ts = []" using f by simp
  }
  {
    assume "listFailures w < listFailures w'"
    then show "err \<noteq> None" using f by simp
  }
  {
    assume "listFailures w < listFailures w'"
    then show "ts = []" using f by simp
  }
qed

lemma unlistable_walk:
  "listDriveFolderFiles env_unlistable rootR world0 =
     Some (([], Some (Errorf ''list drive folder: %s [%s], err = %w'' [''R'', ''root'']
                       (Errorf ''Unable to list files, err = %w'' [] (External ''rateLimitExceeded'')))),
           emit (CallList ''R'' [] False)
             (logPrintf ''[%03d] listing folder: %s'' [ANat 0, AStr ''R'']
                (logPrintf ''>> list folder: %s [%s]'' [AStr ''R'', AStr ''root'']
                   (emit (CallGet ''R'' True) world0))))"
  unfolding listDriveFolderFiles_def
  by (subst walkLoop.simps, subst listDriveFolder_def, subst listPages.simps)
    (simp add: env_unlistable_def env_tree1_def env0_def rootR_def folderMeta_def isDriveFolder_def Let_def)

theorem listing_failure_aborts_walk_witness:
  "listPages env_unlistable ''R'' (walkHandler rootR) 0 [] ([], []) world0 =
     Some (Some (Errorf ''Unable to list files, err = %w'' [] (External ''rateLimitExceeded'')), ([], []),
           emit (CallList ''R'' [] False)
             (logPrintf ''[%03d] listing folder: %s'' [ANat 0, AStr ''R''] world0)) \<and>
   listFailures world0 <
     listFailures (emit (CallList ''R'' [] False)
             (logPrintf ''[%03d] listing folder: %s'' [ANat 0, AStr ''R'']
                (logPrintf ''>> list folder: %s [%s]'' [AStr ''R'', AStr ''root'']
                   (emit (CallGet ''R'' True) world0)))) \<and>
   map_option fst (listDriveFolderFiles env_unlistable rootR world0) =
     Some ([], Some (Errorf ''list drive folder: %s [%s], err = %w'' [''R'', ''root'']
                       (Errorf ''Unable to list files, err = %w'' [] (External ''rateLimitExceeded''))))"
proof -
  have l: "Files_List env_unlistable
      (logPrintf ''[%03d] listing folder: %s'' [ANat 0, AStr ''R''] world0) ''R'' [] =
      Inl (External ''rateLimitExceeded'')"
    by (simp add: env_unlistable_def)
  note a = listing_failure_aborts_walk [OF refl refl, THEN conjunct1, THEN mp, OF l,
      of "walkHandler rootR" "([], [])"]
  have lt: "listFailures world0 <
     listFailures (emit (CallList ''R'' [] False)
             (logPrintf ''[%03d] listing folder: %s'' [ANat 0, AStr ''R'']
                (logPrintf ''>> list folder: %s [%s]'' [AStr ''R'', AStr ''root'']
                   (emit (CallGet ''R'' True) world0))))"
    by simp
  note c = listing_failure_aborts_walk [OF refl refl, THEN conjunct2, THEN conjunct2, THEN mp,
      OF unlistable_walk, THEN conjunct2, THEN mp, OF lt]
  show ?thesis
    using a lt unlistable_walk c by simp
qed

section \<open>The task list store: lemmas\<close>

lemma lower_keys:
  "map toLower ''id'' = ''id''" "map toLower ''path'' = ''path''"
  "map toLower ''md5'' = ''md5''" "map toLower ''done'' = ''done''"
  by code_simp+

lemma setField_keys:
  "setField ''id'' (JString s) t = Inr (t\<lparr>FileId := s\<rparr>)"
  "setField ''path'' (JString s) t = Inr (t\<lparr>SavePath := s\<rparr>)"
  "setField ''md5'' (JString s) t = Inr (t\<lparr>Md5Checksum := s\<rparr>)"
  "setField ''done'' (JBool b) t = Inr (t\<lparr>Done := b\<rparr>)"
  by (simp_all only: setField.simps lower_keys Let_def) simp_all

lemma Unmarshal_Marshal_Task: "Unmarshal_Task (Marshal_Task t) = Inr t"
  by (simp add: Unmarshal_Task_def Marshal_Task_def setField_keys zeroTask_def del: setField.simps)

lemma Unmarshal_Marshal_elems: "Unmarshal_elems (map Marshal_Task ts) = Inr ts"
  by (induction ts) (simp_all add: Unmarshal_Marshal_Task)

lemma Unmarshal_Marshal_tasks: "Unmarshal_tasks (Marshal_tasks ts) = Inr ts"
  by (simp add: Unmarshal_tasks_def Marshal_tasks_def Unmarshal_Marshal_elems)

lemma Marshal_tasks_inj: "Marshal_tasks ts = Marshal_tasks ts' \<Longrightarrow> ts = ts'"
  by (metis Unmarshal_Marshal_tasks sum.inject(2))



end
